theory Spec2Isabelle
  imports Complex_Main "HOL-Library.Multiset"
begin

section \<open>Tool database of the Woodpecker screen (tool_db.py)\<close>

text \<open>
  The module keeps two SQL tables, \<open>offsets\<close> and \<open>tools\<close>, behind two Qt table models,
  reconciles them with the controller's tool list (\<open>MyOffsetModel.update\<close>) and runs a
  stopwatch for the tool in the spindle.

  A table model is a list of rows in the model's row order. The order is part of the state,
  because the module reads and writes the tools model at row indices that it finds in the
  offsets model. \<open>select()\<close> re-reads a table in the sort order of its model: the tools
  model is sorted by TOOL from \<open>init_tool_view\<close> on, the offsets model never gets a sort
  order from \<open>init_offset_view\<close> (\<open>MyOffsetModel.sort\<close> ignores column 1) and keeps the
  order of its rows. Columns have the types of the CREATE TABLE statements of
  \<open>create_offset_table\<close> and \<open>create_tool_table\<close>.

  A Python float is a double. The module only copies and prints floats, except for the
  stopwatch, which converts minutes to whole seconds and back; these conversions round as
  doubles do.
\<close>

subsection \<open>Cell values and Python conversions\<close>

datatype val = VInt int | VFloat real | VStr string | VNull

datatype error = TypeError | ValueError

text \<open>Rounding to the nearest integer, ties to even.\<close>

definition round_half_even :: "real \<Rightarrow> int" where
  "round_half_even x =
     (let f = \<lfloor>x\<rfloor>; d = x - of_int f
      in if d < 1 / 2 then f else if 1 / 2 < d then f + 1
         else if even f then f else f + 1)"

text \<open>A double has a significand of 53 bits. \<open>round_double\<close> is the rounding of every
  float operation: the nearest double to the exact result, ties to even. For a positive
  \<open>x\<close>, \<open>exponent2 x\<close> is the \<open>e\<close> with \<open>2^e \<le> x < 2^(e+1)\<close>, so the doubles around
  \<open>x\<close> are the multiples of \<open>2^(e-52)\<close>. Overflow to infinity and the subnormal numbers
  are not modelled: the exponent is unbounded.\<close>

fun bit_length :: "nat \<Rightarrow> nat" where
  "bit_length n = (if n = 0 then 0 else Suc (bit_length (n div 2)))"

declare bit_length.simps [simp del]

definition pow2 :: "int \<Rightarrow> real" where
  "pow2 k = (if 0 \<le> k then 2 ^ nat k else 1 / 2 ^ nat (- k))"

definition exponent2 :: "real \<Rightarrow> int" where
  "exponent2 x =
     (if 1 \<le> x then int (bit_length (nat \<lfloor>x\<rfloor>)) - 1
      else - int (bit_length (nat (\<lceil>1 / x\<rceil> - 1))))"

definition round_double :: "real \<Rightarrow> real" where
  "round_double x =
     (if x = 0 then 0
      else let u = pow2 (exponent2 \<bar>x\<bar> - 52)
           in of_int (round_half_even (x / u)) * u)"

text \<open>\<open>"{:.3f}".format(x)\<close> and \<open>"{:.4f}".format(x)\<close>: the nearest decimal with
  \<open>p\<close> places to the exact value of the double, ties to even, a sign for negative
  numbers.\<close>

definition dec_digit :: "nat \<Rightarrow> char" where
  "dec_digit n = ''0123456789'' ! (n mod 10)"

fun dec_digits :: "nat \<Rightarrow> string" where
  "dec_digits n = (if n < 10 then [dec_digit n] else dec_digits (n div 10) @ [dec_digit n])"

declare dec_digits.simps [simp del]

definition zero_pad :: "nat \<Rightarrow> string \<Rightarrow> string" where
  "zero_pad p ds = replicate (p - length ds) (CHR ''0'') @ ds"

definition format_f :: "nat \<Rightarrow> real \<Rightarrow> string" where
  "format_f p x =
     (let m = nat (round_half_even (\<bar>x\<bar> * 10 ^ p))
      in (if x < 0 then ''-'' else '''') @ dec_digits (m div 10 ^ p) @ ''.''
           @ zero_pad p (dec_digits (m mod 10 ^ p)))"

text \<open>The number that a string denotes, for the plain decimal notation that
  \<open>format_f\<close> writes (an optional minus sign, digits, a point, digits); no other string
  is read here.\<close>

definition digit_of :: "char \<Rightarrow> nat option" where
  "digit_of c = map_of (zip ''0123456789'' [0..<10]) c"

fun nat_of_digits :: "nat \<Rightarrow> string \<Rightarrow> nat option" where
  "nat_of_digits acc [] = Some acc"
| "nat_of_digits acc (c # cs) =
     (case digit_of c of None \<Rightarrow> None | Some d \<Rightarrow> nat_of_digits (10 * acc + d) cs)"

definition float_of_string :: "string \<Rightarrow> real option" where
  "float_of_string s =
     (let neg = (s \<noteq> [] \<and> hd s = CHR ''-'');
          body = (if neg then tl s else s);
          ip = takeWhile (\<lambda>c. c \<noteq> CHR ''.'') body;
          fp = drop (Suc (length ip)) body
      in if ip = [] \<or> fp = [] then None
         else case (nat_of_digits 0 ip, nat_of_digits 0 fp) of
                (Some a, Some b) \<Rightarrow>
                  Some ((if neg then - 1 else 1) * (real a + real b / 10 ^ length fp))
              | _ \<Rightarrow> None)"

text \<open>\<open>float(v)\<close>: the double nearest to the number; a string that is not read is a
  ValueError, nothing is a TypeError.\<close>

definition py_float :: "val \<Rightarrow> error + real" where
  "py_float v =
     (case v of
        VFloat x \<Rightarrow> Inr x
      | VInt i \<Rightarrow> Inr (round_double (of_int i))
      | VStr s \<Rightarrow>
          (case float_of_string s of
             None \<Rightarrow> Inl ValueError
           | Some x \<Rightarrow> Inr (round_double x))
      | VNull \<Rightarrow> Inl TypeError)"

text \<open>What a column of type REAL keeps of a written value: a number, also one written as
  a string, is stored as a float.\<close>

definition real_affinity :: "val \<Rightarrow> val" where
  "real_affinity v =
     (case v of
        VInt i \<Rightarrow> VFloat (round_double (of_int i))
      | VStr s \<Rightarrow>
          (case float_of_string s of None \<Rightarrow> VStr s | Some x \<Rightarrow> VFloat (round_double x))
      | _ \<Rightarrow> v)"

text \<open>\<open>int(x)\<close> on a float truncates towards zero.\<close>

definition py_int :: "real \<Rightarrow> int" where
  "py_int x = (if 0 \<le> x then \<lfloor>x\<rfloor> else \<lceil>x\<rceil>)"

subsection \<open>The two tables\<close>

text \<open>A row of \<open>offsets\<close>, one field per column of the CREATE TABLE statement, in its
  order. The one-letter columns carry the suffix \<open>_col\<close>.\<close>

record offset_row =
  idn :: int
  Chk :: int
  Tool :: int
  Pocket :: int
  X_col :: real
  Y_col :: real
  Z_col :: real
  A_col :: real
  B_col :: real
  C_col :: real
  U_col :: real
  V_col :: real
  W_col :: real
  Diameter :: real
  I_col :: real
  J_col :: real
  Q_col :: int
  Comment :: string

text \<open>A line of the controller's tool array (\<open>TOOL.GET_TOOL_MODELS\<close>): sixteen
  positional entries, tool number first, as in the array that \<open>add_tool\<close> builds.\<close>

record tool_line =
  l_Tool :: int
  l_Pocket :: int
  l_X :: real
  l_Y :: real
  l_Z :: real
  l_A :: real
  l_B :: real
  l_C :: real
  l_U :: real
  l_V :: real
  l_W :: real
  l_Diameter :: real
  l_I :: real
  l_J :: real
  l_Q :: int
  l_Comment :: string

definition line_cells :: "tool_line \<Rightarrow> val list" where
  "line_cells d =
     [VInt (l_Tool d), VInt (l_Pocket d), VFloat (l_X d), VFloat (l_Y d), VFloat (l_Z d),
      VFloat (l_A d), VFloat (l_B d), VFloat (l_C d), VFloat (l_U d), VFloat (l_V d),
      VFloat (l_W d), VFloat (l_Diameter d), VFloat (l_I d), VFloat (l_J d),
      VInt (l_Q d), VStr (l_Comment d)]"

text \<open>A row of \<open>tools\<close>: the key, the tool number and the cumulative time. The
  columns RPM, CPT, LENGTH, FLUTES, FEED, MFG and ICON are neither read nor written by
  the operations below and are left out. TIME is a cell value: the column has the type
  REAL, which does not keep a string that is no number from being stored.\<close>

record tool_row =
  t_idn :: int
  TOOL :: int
  TIME :: val

text \<open>The widget's state: both models, the key sequence of the AUTOINCREMENT column,
  \<open>offset_model.tool_list\<close>, the two \<open>metric_display\<close> flags, whether the tools model
  has its sort order by TOOL (\<open>tool_sort\<close>), \<open>current_row\<close>, \<open>timer_dict\<close> with its
  three entries, \<open>timer_tenths\<close> and \<open>next_available\<close>.\<close>

record registry =
  offsets :: "offset_row list"
  tools :: "tool_row list"
  seq :: int
  tool_list :: "int list"
  offset_metric :: bool
  tool_metric :: bool
  tool_sort :: bool
  current_row :: "nat option"
  running :: bool
  timer_tool :: int
  timer_time :: int
  timer_tenths :: int
  next_available :: int

subsection \<open>Column headers\<close>

text \<open>\<open>rec.fieldName(i)\<close> for the offsets table.\<close>

definition offset_fields :: "string list" where
  "offset_fields =
     [''idn'', ''Chk'', ''Tool'', ''Pocket'', ''X'', ''Y'', ''Z'', ''A'', ''B'', ''C'',
      ''U'', ''V'', ''W'', ''Diameter'', ''I'', ''J'', ''Q'', ''Comment'']"

text \<open>\<open>MyOffsetModel.__init__\<close> fills the dictionary \<open>offset_headers\<close> in field order,
  only for \<open>i > 1\<close>.\<close>

definition offset_headers :: "(string \<times> nat) list" where
  "offset_headers =
     map (\<lambda>i. (offset_fields ! i, i)) (filter (\<lambda>i. 1 < i) [0..<length offset_fields])"

subsection \<open>Cell access\<close>

text \<open>The base class's \<open>data\<close> and \<open>setData\<close> on one row: the cell of a column, and
  a write to it. A column keeps values of its declared type only.\<close>

definition field_value :: "offset_row \<Rightarrow> nat \<Rightarrow> val" where
  "field_value r c =
     (if c = 0 then VInt (idn r) else if c = 1 then VInt (Chk r)
      else if c = 2 then VInt (Tool r) else if c = 3 then VInt (Pocket r)
      else if c = 4 then VFloat (X_col r) else if c = 5 then VFloat (Y_col r)
      else if c = 6 then VFloat (Z_col r) else if c = 7 then VFloat (A_col r)
      else if c = 8 then VFloat (B_col r) else if c = 9 then VFloat (C_col r)
      else if c = 10 then VFloat (U_col r) else if c = 11 then VFloat (V_col r)
      else if c = 12 then VFloat (W_col r) else if c = 13 then VFloat (Diameter r)
      else if c = 14 then VFloat (I_col r) else if c = 15 then VFloat (J_col r)
      else if c = 16 then VInt (Q_col r) else if c = 17 then VStr (Comment r)
      else VNull)"

fun set_field :: "nat \<Rightarrow> val \<Rightarrow> offset_row \<Rightarrow> offset_row" where
  "set_field c (VInt i) r =
     (if c = 0 then r\<lparr>idn := i\<rparr> else if c = 1 then r\<lparr>Chk := i\<rparr>
      else if c = 2 then r\<lparr>Tool := i\<rparr> else if c = 3 then r\<lparr>Pocket := i\<rparr>
      else if c = 16 then r\<lparr>Q_col := i\<rparr> else r)"
| "set_field c (VFloat x) r =
     (if c = 4 then r\<lparr>X_col := x\<rparr> else if c = 5 then r\<lparr>Y_col := x\<rparr>
      else if c = 6 then r\<lparr>Z_col := x\<rparr> else if c = 7 then r\<lparr>A_col := x\<rparr>
      else if c = 8 then r\<lparr>B_col := x\<rparr> else if c = 9 then r\<lparr>C_col := x\<rparr>
      else if c = 10 then r\<lparr>U_col := x\<rparr> else if c = 11 then r\<lparr>V_col := x\<rparr>
      else if c = 12 then r\<lparr>W_col := x\<rparr> else if c = 13 then r\<lparr>Diameter := x\<rparr>
      else if c = 14 then r\<lparr>I_col := x\<rparr> else if c = 15 then r\<lparr>J_col := x\<rparr>
      else r)"
| "set_field c (VStr s) r = (if c = 17 then r\<lparr>Comment := s\<rparr> else r)"
| "set_field c VNull r = r"

text \<open>\<open>MyOffsetModel.data\<close> with the default DisplayRole: nothing for column 1, a
  float as a string of 3 (metric) or 4 decimals, any other value as it is.\<close>

definition data :: "bool \<Rightarrow> offset_row \<Rightarrow> nat \<Rightarrow> val" where
  "data metric r c =
     (if c = 1 then VNull
      else case field_value r c of
             VFloat x \<Rightarrow> VStr (format_f (if metric then 3 else 4) x)
           | v \<Rightarrow> v)"

text \<open>\<open>MyOffsetModel.setData\<close> with the default EditRole, on a valid index.\<close>

definition setData :: "nat \<Rightarrow> nat \<Rightarrow> val \<Rightarrow> offset_row list \<Rightarrow> offset_row list" where
  "setData row c v rows =
     (if row < length rows then rows[row := set_field c v (rows ! row)] else rows)"

subsection \<open>Lookups\<close>

text \<open>\<open>MyOffsetModel.get_index\<close>: the first row whose Tool cell equals \<open>tno\<close>.\<close>

fun get_index :: "int \<Rightarrow> offset_row list \<Rightarrow> nat option" where
  "get_index tno [] = None"
| "get_index tno (r # rs) =
     (if Tool r = tno then Some 0 else map_option Suc (get_index tno rs))"

text \<open>\<open>MyOffsetModel.list_checked_tools\<close>.\<close>

definition list_checked_tools :: "registry \<Rightarrow> int list" where
  "list_checked_tools s =
     fold (\<lambda>row checked_list.
             if Chk (offsets s ! row) = 1 then checked_list @ [Tool (offsets s ! row)]
             else checked_list)
          [0..<length (offsets s)] []"

text \<open>\<open>Tool_Database.get_next_available\<close>: the loop variable after
  \<open>for tno in range(0, 100)\<close> with its \<open>break\<close>.\<close>

function scan_free :: "int list \<Rightarrow> int \<Rightarrow> int" where
  "scan_free known tno =
     (if tno \<notin> set known then tno
      else if tno + 1 < 100 then scan_free known (tno + 1) else tno)"
  by pat_completeness auto
termination
  by (relation "measure (\<lambda>(known, tno). nat (100 - tno))") auto

declare scan_free.simps [simp del]

definition get_next_available :: "registry \<Rightarrow> int \<times> registry" where
  "get_next_available s =
     (let tno = scan_free (tool_list s) 0 in (tno, s\<lparr>next_available := tno\<rparr>))"

subsection \<open>Selection\<close>

text \<open>\<open>MyOffsetModel.uncheck_all_tools\<close>.\<close>

definition uncheck_all_tools :: "offset_row list \<Rightarrow> offset_row list" where
  "uncheck_all_tools rows =
     fold (\<lambda>row rs. if Chk (rs ! row) = 1 then setData row 1 (VInt 0) rs else rs)
          [0..<length rows] rows"

text \<open>\<open>MyOffsetModel.setData\<close> with the CheckStateRole on column 1 of row
  \<open>row\<close>. A value that is neither Checked nor Unchecked reaches the base class, which
  stores nothing for that role.\<close>

datatype check_state = Unchecked | PartiallyChecked | Checked

definition setData_check :: "nat \<Rightarrow> check_state \<Rightarrow> registry \<Rightarrow> registry" where
  "setData_check row v s =
     (if \<not> row < length (offsets s) then s
      else case v of
             Checked \<Rightarrow> s\<lparr>offsets := setData row 1 (VInt 1) (uncheck_all_tools (offsets s))\<rparr>
           | Unchecked \<Rightarrow> s\<lparr>offsets := setData row 1 (VInt 0) (offsets s)\<rparr>
           | PartiallyChecked \<Rightarrow> s)"

subsection \<open>Reconciliation\<close>

text \<open>The loop \<open>for i, key in enumerate(offset_headers)\<close> of \<open>addrow\<close> and
  \<open>update_row\<close>: entry \<open>i\<close> of the line goes to column \<open>offset_headers[key]\<close>.\<close>

definition write_line :: "tool_line \<Rightarrow> offset_row \<Rightarrow> offset_row" where
  "write_line d r =
     fold (\<lambda>(i, key, c). set_field c (line_cells d ! i)) (enumerate 0 offset_headers) r"

text \<open>The key of an inserted offsets row: AUTOINCREMENT gives one more than the
  largest key the table holds or has ever issued.\<close>

definition next_idn :: "registry \<Rightarrow> int" where
  "next_idn s = 1 + fold max (map idn (offsets s)) (seq s)"

text \<open>An empty record of the offsets table, with the defaults of its columns.\<close>

definition empty_record :: "offset_row" where
  "empty_record =
     \<lparr>idn = 0, Chk = 0, Tool = 0, Pocket = 0, X_col = 0, Y_col = 0, Z_col = 0, A_col = 0,
      B_col = 0, C_col = 0, U_col = 0, V_col = 0, W_col = 0, Diameter = 0, I_col = 0,
      J_col = 0, Q_col = 0, Comment = ''new tool''\<rparr>"

text \<open>\<open>MyToolModel.addrow\<close>: \<open>idn\<close> is the primary key of \<open>tools\<close>, so the insert
  fails (and is only logged) when the key is taken.\<close>

definition tool_addrow :: "int \<Rightarrow> int \<Rightarrow> tool_row list \<Rightarrow> tool_row list" where
  "tool_addrow pkey tno ts =
     (if pkey \<in> set (map t_idn ts) then ts
      else ts @ [\<lparr>t_idn = pkey, TOOL = tno, TIME = VFloat 0\<rparr>])"

text \<open>\<open>MyOffsetModel.addrow\<close>. The insert into \<open>offsets\<close> generates the key, so it
  meets no constraint; \<open>pkey\<close> is the key read back from the new row.\<close>

definition addrow :: "tool_line \<Rightarrow> registry \<Rightarrow> registry" where
  "addrow d s =
     (let pkey = next_idn s;
          rec = (write_line d empty_record)\<lparr>idn := pkey\<rparr>;
          tno = l_Tool d
      in s\<lparr>offsets := offsets s @ [rec], seq := pkey,
            tools := tool_addrow pkey tno (tools s)\<rparr>)"

text \<open>\<open>MyOffsetModel.update_row\<close>.\<close>

definition update_row :: "nat \<Rightarrow> tool_line \<Rightarrow> registry \<Rightarrow> registry" where
  "update_row row d s =
     s\<lparr>offsets :=
         fold (\<lambda>(i, key, c). setData row c (line_cells d ! i)) (enumerate 0 offset_headers)
              (offsets s)\<rparr>"

text \<open>\<open>removeRow(row)\<close> of a table model; a row that does not exist is not removed.\<close>

definition removeRow :: "nat \<Rightarrow> 'a list \<Rightarrow> 'a list" where
  "removeRow row xs = take row xs @ drop (Suc row) xs"

text \<open>\<open>tool_model.select()\<close>: the rows in the order of TOOL when the model has that
  sort order (rows with the same tool number keep their order), and as they are before.\<close>

definition tool_select :: "bool \<Rightarrow> tool_row list \<Rightarrow> tool_row list" where
  "tool_select by_tool ts = (if by_tool then sort_key TOOL ts else ts)"

text \<open>\<open>MyOffsetModel.delrow\<close>: the row index found in the offsets model is used for
  both models, and both are selected again.\<close>

definition delrow :: "int \<Rightarrow> registry \<Rightarrow> registry" where
  "delrow tno s =
     (case get_index tno (offsets s) of
        None \<Rightarrow> s
      | Some row \<Rightarrow>
          s\<lparr>offsets := removeRow row (offsets s),
            tools := tool_select (tool_sort s) (removeRow row (tools s))\<rparr>)"

text \<open>The body of the first loop of \<open>MyOffsetModel.update\<close>.\<close>

definition update_line :: "tool_line \<Rightarrow> registry \<Rightarrow> registry" where
  "update_line d s =
     (let tno = l_Tool d;
          s1 = s\<lparr>tool_list := tool_list s @ [tno]\<rparr>
      in case get_index tno (offsets s1) of
           None \<Rightarrow> addrow d s1
         | Some row \<Rightarrow> update_row row d s1)"

text \<open>The second loop: the tool numbers of the rows that are not in \<open>tool_list\<close>.\<close>

definition delete_list :: "registry \<Rightarrow> int list" where
  "delete_list s = map Tool (filter (\<lambda>r. Tool r \<notin> set (tool_list s)) (offsets s))"

text \<open>\<open>MyOffsetModel.update\<close>, with the tool array of \<open>TOOL.GET_TOOL_MODELS()\<close>
  as its argument.\<close>

definition update :: "tool_line list \<Rightarrow> registry \<Rightarrow> registry" where
  "update tool_array s =
     (let s1 = fold update_line tool_array (s\<lparr>tool_list := []\<rparr>);
          dl = delete_list s1;
          dl' = (if 1 < length dl then rev dl else dl)
      in fold delrow dl' s1)"

subsection \<open>Export\<close>

text \<open>\<open>Tool_Database.save_table\<close>.\<close>

definition save_table :: "registry \<Rightarrow> val list list" where
  "save_table s =
     map (\<lambda>r. map (\<lambda>(hdr, c). data (offset_metric s) r c) offset_headers) (offsets s)"

subsection \<open>Usage timer\<close>

text \<open>\<open>MyToolModel.data\<close> and \<open>MyToolModel.setData\<close> on the TIME column of row
  \<open>row\<close>; an index outside the model reads as nothing and refuses the write. The write
  goes to the table at once (OnFieldChange), where the column stores a number as a float.\<close>

definition tool_data :: "bool \<Rightarrow> tool_row list \<Rightarrow> nat \<Rightarrow> val" where
  "tool_data metric ts row =
     (if row < length ts
      then case TIME (ts ! row) of
             VFloat x \<Rightarrow> VStr (format_f (if metric then 3 else 4) x)
           | v \<Rightarrow> v
      else VNull)"

definition tool_setData :: "nat \<Rightarrow> val \<Rightarrow> tool_row list \<Rightarrow> tool_row list" where
  "tool_setData row v ts =
     (if row < length ts then ts[row := (ts ! row)\<lparr>TIME := real_affinity v\<rparr>] else ts)"

text \<open>\<open>Tool_Database.start_tool_timer\<close>. An exception of \<open>float\<close> leaves the
  state as it is at that line.\<close>

definition start_tool_timer :: "registry \<Rightarrow> (error \<times> registry) + registry" where
  "start_tool_timer s =
     (let tno = timer_tool s
      in if tno = 0 then Inr s
         else let s1 = s\<lparr>running := True\<rparr>
              in case get_index tno (offsets s1) of
                   None \<Rightarrow> Inr s1
                 | Some row \<Rightarrow>
                     (case py_float (tool_data (tool_metric s1) (tools s1) row) of
                        Inl e \<Rightarrow> Inl (e, s1)
                      | Inr pre_time \<Rightarrow>
                          Inr (s1\<lparr>timer_time := py_int (round_double (pre_time * 60))\<rparr>)))"

text \<open>\<open>Tool_Database.stop_tool_timer\<close>.\<close>

definition stop_tool_timer :: "registry \<Rightarrow> registry" where
  "stop_tool_timer s =
     (if \<not> running s then s
      else let tno = timer_tool s;
               s1 = s\<lparr>running := False\<rparr>
           in case get_index tno (offsets s1) of
                None \<Rightarrow> s1
              | Some row \<Rightarrow>
                  (let total_time = format_f 3 (round_double (real_of_int (timer_time s1) / 60))
                   in s1\<lparr>tools := tool_setData row (VStr total_time) (tools s1)\<rparr>))"

text \<open>\<open>Tool_Database.tool_changed\<close>; \<open>auto_running\<close> is the answer of
  \<open>STATUS.is_auto_running()\<close>.\<close>

definition tool_changed :: "bool \<Rightarrow> int \<Rightarrow> registry \<Rightarrow> (error \<times> registry) + registry" where
  "tool_changed auto_running tool s =
     (let s1 = s\<lparr>current_row := (if tool = 0 then None else get_index tool (offsets s))\<rparr>
      in if 0 < tool
         then let s2 = s1\<lparr>timer_tool := tool\<rparr>
              in if auto_running then start_tool_timer s2 else Inr s2
         else Inr s1)"

text \<open>\<open>Tool_Database.interp_state\<close>; \<open>auto_mode\<close> is the answer of
  \<open>STATUS.is_auto_mode()\<close>.\<close>

definition interp_state :: "bool \<Rightarrow> bool \<Rightarrow> registry \<Rightarrow> (error \<times> registry) + registry" where
  "interp_state auto_mode state s =
     (if \<not> auto_mode then Inr s
      else if state then start_tool_timer s else Inr (stop_tool_timer s))"

text \<open>\<open>Tool_Database.tool_timer\<close>, the periodic heartbeat.\<close>

definition tool_timer :: "registry \<Rightarrow> registry" where
  "tool_timer s =
     (let s1 = s\<lparr>timer_tenths := timer_tenths s + 1\<rparr>
      in if timer_tenths s1 = 10
         then let s2 = s1\<lparr>timer_tenths := 0\<rparr>
              in if running s2 then s2\<lparr>timer_time := timer_time s2 + 1\<rparr> else s2
         else s1)"

subsection \<open>Start-up and example states\<close>

text \<open>The attributes that \<open>Tool_Database.__init__\<close> sets, over the two tables as
  \<open>create_offset_table\<close> and \<open>create_tool_table\<close> leave them in a new database; the
  tools model has no sort order yet.\<close>

definition init_registry :: registry where
  "init_registry =
     \<lparr>offsets = [], tools = [], seq = 0, tool_list = [], offset_metric = True,
      tool_metric = True, tool_sort = False, current_row = Some 0, running = False,
      timer_tool = 0, timer_time = 0, timer_tenths = 0, next_available = 0\<rparr>"

text \<open>\<open>Tool_Database.init_tool_view\<close>, as far as the model is concerned: the sort
  indicator is put on column 1 (TOOL), and \<open>setSortingEnabled(True)\<close> sorts the model by it
  for this and every later \<open>select()\<close>.\<close>

definition init_tool_view :: "registry \<Rightarrow> registry" where
  "init_tool_view s = s\<lparr>tool_sort := True, tools := sort_key TOOL (tools s)\<rparr>"

text \<open>The widget after \<open>Tool_Database.__init__\<close> on a new database, while the controller
  has no tool: the models are built (\<open>MyOffsetModel.__init__\<close> calls \<open>update\<close>), then the
  views.\<close>

definition started_registry :: registry where
  "started_registry = init_tool_view (update [] init_registry)"

text \<open>The array that \<open>Tool_Database.add_tool\<close> hands to the controller for tool
  \<open>tno\<close>.\<close>

definition add_tool_array :: "int \<Rightarrow> tool_line" where
  "add_tool_array tno =
     \<lparr>l_Tool = tno, l_Pocket = tno, l_X = 0, l_Y = 0, l_Z = 0, l_A = 0, l_B = 0, l_C = 0,
      l_U = 0, l_V = 0, l_W = 0, l_Diameter = 0, l_I = 0, l_J = 0, l_Q = 0,
      l_Comment = ''New tool''\<rparr>"

text \<open>Concrete states for the examples below: an offsets row for a tool added by
  \<open>add_tool\<close>; a registry holding one tool with five minutes on its clock; a registry of
  two tools with tool 1 checked; and the widget after this session: tool 5 is added, then
  tool 2; tool 2 is loaded while a program runs and cuts for 3000 heartbeats, five minutes,
  until the timer is stopped; tool 9 is added and deleted again.\<close>

definition example_row :: "int \<Rightarrow> int \<Rightarrow> int \<Rightarrow> offset_row" where
  "example_row key chk tno =
     (write_line (add_tool_array tno) empty_record)\<lparr>idn := key, Chk := chk\<rparr>"

definition one_tool_registry :: "int \<Rightarrow> int \<Rightarrow> int \<Rightarrow> registry" where
  "one_tool_registry key chk tno =
     init_registry\<lparr>offsets := [example_row key chk tno],
       tools := [\<lparr>t_idn = key, TOOL = tno, TIME = VFloat 5\<rparr>],
       seq := key, tool_list := [tno]\<rparr>"

definition two_tool_registry :: registry where
  "two_tool_registry =
     init_registry\<lparr>offsets := [example_row 1 1 1, example_row 2 0 2],
       tools := [\<lparr>t_idn = 1, TOOL = 1, TIME = VFloat 0\<rparr>, \<lparr>t_idn = 2, TOOL = 2, TIME = VFloat 0\<rparr>],
       seq := 2, tool_list := [1, 2]\<rparr>"

definition swapped_registry :: registry where
  "swapped_registry =
     update [add_tool_array 5, add_tool_array 2]
       (update [add_tool_array 5, add_tool_array 2, add_tool_array 9]
         (stop_tool_timer ((tool_timer ^^ 3000)
           (projr (tool_changed True 2
             (update [add_tool_array 5, add_tool_array 2]
               (update [add_tool_array 5] started_registry)))))))"

subsection \<open>Notions for the proofs\<close>

text \<open>The number that the string \<open>format_f p x\<close> denotes.\<close>

definition decimal_round :: "nat \<Rightarrow> real \<Rightarrow> real" where
  "decimal_round p x =
     (if x < 0 then - 1 else 1) * real (nat (round_half_even (\<bar>x\<bar> * 10 ^ p))) / 10 ^ p"

text \<open>What \<open>update_row\<close> after \<open>get_index\<close> does to the rows, by recursion on the rows
  instead of a row index: the first row with the tool number of the line is written.\<close>

fun upd_first :: "tool_line \<Rightarrow> offset_row list \<Rightarrow> offset_row list" where
  "upd_first d [] = []"
| "upd_first d (r # rs) =
     (if Tool r = l_Tool d then write_line d r # rs else r # upd_first d rs)"

section \<open>Properties\<close>

subsection \<open>Headers and writes\<close>

lemma offset_headers_eq:
  "offset_headers =
     [(''Tool'', 2), (''Pocket'', 3), (''X'', 4), (''Y'', 5), (''Z'', 6), (''A'', 7),
      (''B'', 8), (''C'', 9), (''U'', 10), (''V'', 11), (''W'', 12), (''Diameter'', 13),
      (''I'', 14), (''J'', 15), (''Q'', 16), (''Comment'', 17)]"
  by (simp add: offset_headers_def offset_fields_def upt_rec)

lemma write_line_eq:
  "write_line d r =
     r\<lparr>Tool := l_Tool d, Pocket := l_Pocket d, X_col := l_X d, Y_col := l_Y d,
       Z_col := l_Z d, A_col := l_A d, B_col := l_B d, C_col := l_C d, U_col := l_U d,
       V_col := l_V d, W_col := l_W d, Diameter := l_Diameter d, I_col := l_I d,
       J_col := l_J d, Q_col := l_Q d, Comment := l_Comment d\<rparr>"
  by (simp add: write_line_def offset_headers_eq line_cells_def)

lemma fold_setData_row:
  "row < length rows \<Longrightarrow>
   fold (\<lambda>(i, key, c). setData row c (vs ! i)) hs rows =
   rows[row := fold (\<lambda>(i, key, c). set_field c (vs ! i)) hs (rows ! row)]"
proof (induction hs arbitrary: rows)
  case Nil
  then show ?case by simp
next
  case (Cons h hs)
  obtain i key c where h: "h = (i, key, c)" by (cases h)
  have len: "row < length (setData row c (vs ! i) rows)"
    using Cons.prems by (simp add: setData_def)
  show ?case
    using Cons.IH [OF len] Cons.prems by (simp add: h setData_def)
qed

lemma update_row_eq:
  "row < length (offsets s) \<Longrightarrow>
   update_row row d s = s\<lparr>offsets := (offsets s)[row := write_line d (offsets s ! row)]\<rparr>"
  by (simp add: update_row_def write_line_def fold_setData_row)

lemma get_index_Some:
  "get_index tno rows = Some i \<Longrightarrow>
   i < length rows \<and> Tool (rows ! i) = tno \<and> (\<forall>j<i. Tool (rows ! j) \<noteq> tno)"
proof (induction rows arbitrary: i)
  case Nil
  then show ?case by simp
next
  case (Cons r rs)
  show ?case
  proof (cases "Tool r = tno")
    case True
    with Cons.prems show ?thesis by simp
  next
    case False
    with Cons.prems obtain k where k: "get_index tno rs = Some k" "i = Suc k"
      by auto
    from Cons.IH [OF k(1)] False k(2) show ?thesis
      by (auto simp: nth_Cons less_Suc_eq_0_disj)
  qed
qed

lemma get_index_None: "get_index tno rows = None \<longleftrightarrow> tno \<notin> Tool ` set rows"
  by (induction rows) auto

lemma scan_free_spec:
  "0 \<le> tno \<Longrightarrow> \<exists>k. tno \<le> k \<and> k < 100 \<and> k \<notin> set known \<Longrightarrow>
   tno \<le> scan_free known tno \<and> scan_free known tno < 100 \<and>
   scan_free known tno \<notin> set known \<and>
   (\<forall>j. tno \<le> j \<and> j < scan_free known tno \<longrightarrow> j \<in> set known)"
proof (induction known tno rule: scan_free.induct)
  case (1 known tno)
  show ?case
  proof (cases "tno \<notin> set known")
    case True
    with "1.prems" show ?thesis by (auto simp: scan_free.simps [of known tno])
  next
    case False
    from "1.prems"(2) obtain k where k: "tno \<le> k" "k < 100" "k \<notin> set known" by blast
    with False have lt: "tno < k" by (cases "tno = k") auto
    then have next100: "tno + 1 < 100" using k by simp
    have ex: "\<exists>k. tno + 1 \<le> k \<and> k < 100 \<and> k \<notin> set known"
      using k lt by (intro exI [of _ k]) simp
    have ih: "tno + 1 \<le> scan_free known (tno + 1) \<and> scan_free known (tno + 1) < 100 \<and>
       scan_free known (tno + 1) \<notin> set known \<and>
       (\<forall>j. tno + 1 \<le> j \<and> j < scan_free known (tno + 1) \<longrightarrow> j \<in> set known)"
      using "1.IH" False next100 "1.prems"(1) ex by simp
    have eq: "scan_free known tno = scan_free known (tno + 1)"
      using False next100 by (simp add: scan_free.simps [of known tno])
    show ?thesis
      unfolding eq using ih False
      by (metis add.commute less_le not_less zless_add1_eq linorder_not_le)
  qed
qed

lemma scan_free_full:
  "0 \<le> tno \<Longrightarrow> tno < 100 \<Longrightarrow> \<forall>k. tno \<le> k \<and> k < 100 \<longrightarrow> k \<in> set known \<Longrightarrow>
   scan_free known tno = 99"
proof (induction known tno rule: scan_free.induct)
  case (1 known tno)
  have mem: "tno \<in> set known" using "1.prems" by simp
  show ?case
  proof (cases "tno + 1 < 100")
    case True
    have "scan_free known (tno + 1) = 99"
      using "1.IH" mem True "1.prems" by simp
    then show ?thesis using mem True by (simp add: scan_free.simps [of known tno])
  next
    case False
    then show ?thesis using mem "1.prems" by (subst scan_free.simps) simp
  qed
qed

subsection \<open>Selection loops\<close>

lemma setData_Chk:
  "row < length rs \<Longrightarrow> setData row 1 (VInt i) rs = rs[row := (rs ! row)\<lparr>Chk := i\<rparr>]"
  by (simp add: setData_def)

lemma uncheck_prefix:
  "k \<le> length rows \<Longrightarrow>
   fold (\<lambda>row rs. if Chk (rs ! row) = 1 then setData row 1 (VInt 0) rs else rs) [0..<k] rows =
   map (\<lambda>r. if Chk r = 1 then r\<lparr>Chk := 0\<rparr> else r) (take k rows) @ drop k rows"
proof (induction k)
  case 0
  then show ?case by simp
next
  case (Suc k)
  let ?u = "\<lambda>r. if Chk r = 1 then r\<lparr>Chk := 0\<rparr> else r"
  let ?f = "\<lambda>row rs. if Chk (rs ! row) = 1 then setData row 1 (VInt 0) rs else rs"
  let ?ys = "map ?u (take k rows)"
  let ?mid = "?ys @ rows ! k # drop (Suc k) rows"
  from Suc.prems have k: "k < length rows" by simp
  then have len: "length ?ys = k" by simp
  have d: "drop k rows = rows ! k # drop (Suc k) rows"
    using k by (simp add: Cons_nth_drop_Suc)
  have ih: "fold ?f [0..<k] rows = ?mid"
    using Suc.IH k d by simp
  have nth: "?mid ! k = rows ! k"
    using nth_append_length [of ?ys] len by simp
  have klen: "k < length ?mid" using len by simp
  have upd: "setData k 1 (VInt 0) ?mid = ?ys @ (rows ! k)\<lparr>Chk := 0\<rparr> # drop (Suc k) rows"
    unfolding setData_Chk [OF klen] nth
    using list_update_length [of ?ys] len by simp
  have t: "take (Suc k) rows = take k rows @ [rows ! k]"
    using k by (simp add: take_Suc_conv_app_nth)
  have "fold ?f [0..<Suc k] rows = ?f k ?mid"
    using ih by simp
  also have "\<dots> = ?ys @ ?u (rows ! k) # drop (Suc k) rows"
    unfolding nth upd by simp
  also have "\<dots> = map ?u (take (Suc k) rows) @ drop (Suc k) rows"
    unfolding t by simp
  finally show ?case .
qed

lemma uncheck_all_tools_eq:
  "uncheck_all_tools rows = map (\<lambda>r. if Chk r = 1 then r\<lparr>Chk := 0\<rparr> else r) rows"
  by (simp add: uncheck_all_tools_def uncheck_prefix)

lemma fold_checked:
  "k \<le> length xs \<Longrightarrow>
   fold (\<lambda>row acc. if Chk (xs ! row) = 1 then acc @ [Tool (xs ! row)] else acc) [0..<k] acc0 =
   acc0 @ map Tool (filter (\<lambda>r. Chk r = 1) (take k xs))"
  by (induction k) (simp_all add: take_Suc_conv_app_nth)

lemma list_checked_tools_eq:
  "list_checked_tools s = map Tool (filter (\<lambda>r. Chk r = 1) (offsets s))"
  by (simp add: list_checked_tools_def fold_checked)

subsection \<open>Heartbeat\<close>

lemma tool_timer_step:
  assumes "running s" "0 \<le> timer_tenths s" "timer_tenths s < 10"
  shows "tool_timer s =
     s\<lparr>timer_tenths := (timer_tenths s + 1) mod 10,
       timer_time := timer_time s + (timer_tenths s + 1) div 10\<rparr>"
proof (cases "timer_tenths s = 9")
  case True
  then show ?thesis using assms(1) by (simp add: tool_timer_def Let_def)
next
  case False
  then have "timer_tenths s + 1 < 10" using assms by simp
  then have "(timer_tenths s + 1) mod 10 = timer_tenths s + 1" "(timer_tenths s + 1) div 10 = 0"
    using assms by simp_all
  then show ?thesis using False by (simp add: tool_timer_def Let_def)
qed

lemma div10_step: "(x::int) div 10 + (x mod 10 + 1) div 10 = (x + 1) div 10"
  by (simp add: div_add1_eq [of x 1 10])

lemma tool_timer_funpow:
  assumes "running s" "0 \<le> timer_tenths s" "timer_tenths s < 10"
  shows "(tool_timer ^^ n) s =
     s\<lparr>timer_tenths := (timer_tenths s + int n) mod 10,
       timer_time := timer_time s + (timer_tenths s + int n) div 10\<rparr>"
proof (induction n)
  case 0
  show ?case using assms by simp
next
  case (Suc n)
  let ?x = "timer_tenths s + int n"
  let ?u = "s\<lparr>timer_tenths := ?x mod 10, timer_time := timer_time s + ?x div 10\<rparr>"
  have u: "running ?u" "0 \<le> timer_tenths ?u" "timer_tenths ?u < 10"
    using assms(1) by simp_all
  have x1: "timer_tenths s + int (Suc n) = ?x + 1" by simp
  have "(tool_timer ^^ Suc n) s = tool_timer ?u"
    using Suc by simp
  also have "\<dots> = ?u\<lparr>timer_tenths := (timer_tenths ?u + 1) mod 10,
       timer_time := timer_time ?u + (timer_tenths ?u + 1) div 10\<rparr>"
    by (rule tool_timer_step [OF u])
  also have "\<dots> = s\<lparr>timer_tenths := (?x + 1) mod 10,
       timer_time := timer_time s + (?x div 10 + (?x mod 10 + 1) div 10)\<rparr>"
    by (simp add: mod_simps)
  also have "\<dots> = s\<lparr>timer_tenths := (?x + 1) mod 10,
       timer_time := timer_time s + (?x + 1) div 10\<rparr>"
    unfolding div10_step ..
  finally show ?case unfolding x1 .
qed

text \<open>The tenths counter starts at 0 and stays within 0..9.\<close>

lemma tool_timer_tenths:
  "0 \<le> timer_tenths s \<Longrightarrow> timer_tenths s < 10 \<Longrightarrow>
   0 \<le> timer_tenths (tool_timer s) \<and> timer_tenths (tool_timer s) < 10"
  by (simp add: tool_timer_def Let_def)

subsection \<open>Examples\<close>

lemma example_row_eq:
  "example_row key chk tno =
     \<lparr>idn = key, Chk = chk, Tool = tno, Pocket = tno, X_col = 0, Y_col = 0, Z_col = 0,
      A_col = 0, B_col = 0, C_col = 0, U_col = 0, V_col = 0, W_col = 0, Diameter = 0,
      I_col = 0, J_col = 0, Q_col = 0, Comment = ''New tool''\<rparr>"
  by (simp add: example_row_def write_line_eq add_tool_array_def empty_record_def)

subsection \<open>Next free tool number\<close>

text \<open>Claim C7. When some number of 0..99 is missing from \<open>tool_list\<close>,
  \<open>get_next_available\<close> returns a number of 0..99 that is missing, every smaller number
  of the range is present, and the result is stored in \<open>next_available\<close>; with the tools
  0, 1, 2 and 4 it returns 3.\<close>

theorem get_next_available_first_free:
  "((\<exists>k. 0 \<le> k \<and> k < 100 \<and> k \<notin> set (tool_list s)) \<longrightarrow>
      0 \<le> fst (get_next_available s) \<and> fst (get_next_available s) < 100 \<and>
      fst (get_next_available s) \<notin> set (tool_list s) \<and>
      (\<forall>j. 0 \<le> j \<and> j < fst (get_next_available s) \<longrightarrow> j \<in> set (tool_list s)) \<and>
      next_available (snd (get_next_available s)) = fst (get_next_available s)) \<and>
   fst (get_next_available (s\<lparr>tool_list := [0, 1, 2, 4]\<rparr>)) = 3"
proof -
  have part: "fst (get_next_available (s\<lparr>tool_list := [0, 1, 2, 4]\<rparr>)) = 3"
    by (simp add: get_next_available_def Let_def scan_free.simps)
  have gen: "0 \<le> scan_free (tool_list s) 0 \<and> scan_free (tool_list s) 0 < 100 \<and>
      scan_free (tool_list s) 0 \<notin> set (tool_list s) \<and>
      (\<forall>j. 0 \<le> j \<and> j < scan_free (tool_list s) 0 \<longrightarrow> j \<in> set (tool_list s))"
    if "\<exists>k. 0 \<le> k \<and> k < 100 \<and> k \<notin> set (tool_list s)"
    using scan_free_spec [of 0 "tool_list s"] that by simp
  show ?thesis using part gen by (simp add: get_next_available_def Let_def)
qed

theorem get_next_available_first_free_witness:
  "(\<exists>k. 0 \<le> k \<and> k < 100 \<and> k \<notin> set (tool_list (init_registry\<lparr>tool_list := [0, 1, 2, 4]\<rparr>))) \<and>
   fst (get_next_available (init_registry\<lparr>tool_list := [0, 1, 2, 4]\<rparr>)) = 3 \<and>
   fst (get_next_available (init_registry\<lparr>tool_list := [0, 1, 2, 4]\<rparr>))
     \<notin> set (tool_list (init_registry\<lparr>tool_list := [0, 1, 2, 4]\<rparr>))"
proof -
  have ex: "\<exists>k. 0 \<le> k \<and> k < 100 \<and> k \<notin> set (tool_list (init_registry\<lparr>tool_list := [0, 1, 2, 4]\<rparr>))"
    by (rule exI [of _ 3]) simp
  show ?thesis
    using ex get_next_available_first_free [of "init_registry\<lparr>tool_list := [0, 1, 2, 4]\<rparr>"]
    by simp
qed

lemma upto_100_mem: "\<forall>k. 0 \<le> k \<and> k < 100 \<longrightarrow> k \<in> set (map int [0..<100])"
proof (intro allI impI)
  fix k :: int
  assume "0 \<le> k \<and> k < 100"
  then have "k = int (nat k)" "nat k \<in> set [0..<100]" by auto
  then have "k \<in> int ` set [0..<100]" by (rule image_eqI)
  then show "k \<in> set (map int [0..<100])" by (simp only: set_map)
qed

text \<open>Claim C8 fails when all of 0..99 are taken: the loop ends without a break and
  the last value, 99, is returned although it is in the list.\<close>

theorem get_next_available_full_counterexample:
  "fst (get_next_available (init_registry\<lparr>tool_list := map int [0..<100]\<rparr>)) = 99 \<and>
   99 \<in> set (tool_list (init_registry\<lparr>tool_list := map int [0..<100]\<rparr>))"
proof -
  have scan: "scan_free (map int [0..<100]) 0 = 99"
    using scan_free_full [OF _ _ upto_100_mem] by simp
  have mem: "(99::int) \<in> set (map int [0..<100])"
    using upto_100_mem by simp
  have tl: "tool_list (init_registry\<lparr>tool_list := map int [0..<100]\<rparr>) = map int [0..<100]"
    by simp
  show ?thesis
    unfolding get_next_available_def Let_def tl fst_conv scan using mem by simp
qed

text \<open>Claim C8, amended. When some number of 0..99 is absent from \<open>tool_list\<close>, the
  number that \<open>get_next_available\<close> returns is absent from it.\<close>

theorem get_next_available_fresh:
  assumes "\<exists>k. 0 \<le> k \<and> k < 100 \<and> k \<notin> set (tool_list s)"
  shows "fst (get_next_available s) \<notin> set (tool_list s)"
  using scan_free_spec [of 0 "tool_list s"] assms
  by (simp add: get_next_available_def Let_def)

theorem get_next_available_fresh_witness:
  "(\<exists>k. 0 \<le> k \<and> k < 100 \<and> k \<notin> set (tool_list (init_registry\<lparr>tool_list := [0, 2]\<rparr>))) \<and>
   fst (get_next_available (init_registry\<lparr>tool_list := [0, 2]\<rparr>)) = 1 \<and>
   fst (get_next_available (init_registry\<lparr>tool_list := [0, 2]\<rparr>))
      \<notin> set (tool_list (init_registry\<lparr>tool_list := [0, 2]\<rparr>))"
proof -
  have ex: "\<exists>k. 0 \<le> k \<and> k < 100 \<and> k \<notin> set (tool_list (init_registry\<lparr>tool_list := [0, 2]\<rparr>))"
    by (rule exI [of _ 1]) simp
  have v: "fst (get_next_available (init_registry\<lparr>tool_list := [0, 2]\<rparr>)) = 1"
    by (simp add: get_next_available_def Let_def scan_free.simps)
  show ?thesis
    using ex v get_next_available_fresh [OF ex] by simp
qed

subsection \<open>Export\<close>

lemma format_zero: "format_f 3 0 = ''0.000''"
  by (simp add: format_f_def round_half_even_def dec_digits.simps dec_digit_def zero_pad_def
      numeral_3_eq_3)

text \<open>Claim C9 fails: the table has 18 columns, an exported row has 16 values. The key
  42 and the check flag 1 of the row are not in it, it starts with the tool number 7, and
  the floats are exported as the strings that \<open>data\<close> displays.\<close>

theorem save_table_drops_key_and_check:
  "length offset_fields = 18 \<and>
   length (hd (save_table (one_tool_registry 42 1 7))) = 16 \<and>
   idn (hd (offsets (one_tool_registry 42 1 7))) = 42 \<and>
   Chk (hd (offsets (one_tool_registry 42 1 7))) = 1 \<and>
   save_table (one_tool_registry 42 1 7) =
     [[VInt 7, VInt 7, VStr ''0.000'', VStr ''0.000'', VStr ''0.000'', VStr ''0.000'',
       VStr ''0.000'', VStr ''0.000'', VStr ''0.000'', VStr ''0.000'', VStr ''0.000'',
       VStr ''0.000'', VStr ''0.000'', VStr ''0.000'', VInt 0, VStr ''New tool'']]"
  by (simp add: save_table_def offset_headers_eq offset_fields_def one_tool_registry_def
      init_registry_def example_row_eq data_def field_value_def format_zero)

text \<open>Claim C9, amended. \<open>save_table\<close> returns one row per offsets row, in row
  order; each holds the displayed values of the sixteen columns Tool, Pocket, X, Y, Z, A, B,
  C, U, V, W, Diameter, I, J, Q, Comment, in this order, the REAL columns as strings of 3
  (metric) or 4 decimals.\<close>

theorem save_table_rows:
  "map fst offset_headers =
     [''Tool'', ''Pocket'', ''X'', ''Y'', ''Z'', ''A'', ''B'', ''C'', ''U'', ''V'', ''W'',
      ''Diameter'', ''I'', ''J'', ''Q'', ''Comment''] \<and>
   length (save_table s) = length (offsets s) \<and>
   save_table s =
     map (\<lambda>r. [VInt (Tool r), VInt (Pocket r),
                VStr (format_f (if offset_metric s then 3 else 4) (X_col r)),
                VStr (format_f (if offset_metric s then 3 else 4) (Y_col r)),
                VStr (format_f (if offset_metric s then 3 else 4) (Z_col r)),
                VStr (format_f (if offset_metric s then 3 else 4) (A_col r)),
                VStr (format_f (if offset_metric s then 3 else 4) (B_col r)),
                VStr (format_f (if offset_metric s then 3 else 4) (C_col r)),
                VStr (format_f (if offset_metric s then 3 else 4) (U_col r)),
                VStr (format_f (if offset_metric s then 3 else 4) (V_col r)),
                VStr (format_f (if offset_metric s then 3 else 4) (W_col r)),
                VStr (format_f (if offset_metric s then 3 else 4) (Diameter r)),
                VStr (format_f (if offset_metric s then 3 else 4) (I_col r)),
                VStr (format_f (if offset_metric s then 3 else 4) (J_col r)),
                VInt (Q_col r), VStr (Comment r)])
         (offsets s)"
proof (intro conjI)
  show "map fst offset_headers =
     [''Tool'', ''Pocket'', ''X'', ''Y'', ''Z'', ''A'', ''B'', ''C'', ''U'', ''V'', ''W'',
      ''Diameter'', ''I'', ''J'', ''Q'', ''Comment'']"
    by (simp add: offset_headers_eq)
next
  show "length (save_table s) = length (offsets s)"
    by (simp add: save_table_def)
next
  have ints: "data m r 2 = VInt (Tool r)" "data m r 3 = VInt (Pocket r)"
    "data m r 16 = VInt (Q_col r)" "data m r 17 = VStr (Comment r)" for m r
    by (simp_all add: data_def field_value_def)
  have floats: "data m r 4 = VStr (format_f (if m then 3 else 4) (X_col r))"
    "data m r 5 = VStr (format_f (if m then 3 else 4) (Y_col r))"
    "data m r 6 = VStr (format_f (if m then 3 else 4) (Z_col r))"
    "data m r 7 = VStr (format_f (if m then 3 else 4) (A_col r))"
    "data m r 8 = VStr (format_f (if m then 3 else 4) (B_col r))"
    "data m r 9 = VStr (format_f (if m then 3 else 4) (C_col r))"
    "data m r 10 = VStr (format_f (if m then 3 else 4) (U_col r))"
    "data m r 11 = VStr (format_f (if m then 3 else 4) (V_col r))"
    "data m r 12 = VStr (format_f (if m then 3 else 4) (W_col r))"
    "data m r 13 = VStr (format_f (if m then 3 else 4) (Diameter r))"
    "data m r 14 = VStr (format_f (if m then 3 else 4) (I_col r))"
    "data m r 15 = VStr (format_f (if m then 3 else 4) (J_col r))" for m r
    by (simp_all add: data_def field_value_def)
  show "save_table s =
     map (\<lambda>r. [VInt (Tool r), VInt (Pocket r),
                VStr (format_f (if offset_metric s then 3 else 4) (X_col r)),
                VStr (format_f (if offset_metric s then 3 else 4) (Y_col r)),
                VStr (format_f (if offset_metric s then 3 else 4) (Z_col r)),
                VStr (format_f (if offset_metric s then 3 else 4) (A_col r)),
                VStr (format_f (if offset_metric s then 3 else 4) (B_col r)),
                VStr (format_f (if offset_metric s then 3 else 4) (C_col r)),
                VStr (format_f (if offset_metric s then 3 else 4) (U_col r)),
                VStr (format_f (if offset_metric s then 3 else 4) (V_col r)),
                VStr (format_f (if offset_metric s then 3 else 4) (W_col r)),
                VStr (format_f (if offset_metric s then 3 else 4) (Diameter r)),
                VStr (format_f (if offset_metric s then 3 else 4) (I_col r)),
                VStr (format_f (if offset_metric s then 3 else 4) (J_col r)),
                VInt (Q_col r), VStr (Comment r)])
         (offsets s)"
    unfolding save_table_def offset_headers_eq by (simp add: ints floats)
qed

lemma update_line_known:
  assumes "get_index (l_Tool d) (offsets s) = Some row"
  shows "update_line d s =
     s\<lparr>tool_list := tool_list s @ [l_Tool d],
       offsets := (offsets s)[row := write_line d (offsets s ! row)]\<rparr>"
  using assms get_index_Some [OF assms]
  by (simp add: update_line_def Let_def update_row_eq)

text \<open>Claim C6 fails for the check flag: the same incoming line leaves a checked row
  checked and an unchecked row unchecked, so the flag is not overwritten.\<close>

theorem update_keeps_checked_counterexample:
  "Chk (hd (offsets (update [add_tool_array 1] (one_tool_registry 1 1 1)))) = 1 \<and>
   Chk (hd (offsets (update [add_tool_array 1] (one_tool_registry 1 0 1)))) = 0"
  by (simp add: update_def update_line_def update_row_eq delete_list_def Let_def
      one_tool_registry_def init_registry_def example_row_eq write_line_eq add_tool_array_def)

text \<open>Claim C6, amended. For an incoming line whose tool number is in the offsets
  table, one pass of the reconciliation loop overwrites the columns Tool to Comment of the
  first row carrying that number with the entries of the line, and leaves the key and the
  check flag of that row, every other row and the tools table as they were.\<close>

theorem update_line_overwrites_data_columns:
  assumes "get_index (l_Tool d) (offsets s) = Some row"
  shows "update_line d s =
     s\<lparr>tool_list := tool_list s @ [l_Tool d],
       offsets := (offsets s)[row :=
         \<lparr>idn = idn (offsets s ! row), Chk = Chk (offsets s ! row), Tool = l_Tool d,
          Pocket = l_Pocket d, X_col = l_X d, Y_col = l_Y d, Z_col = l_Z d, A_col = l_A d,
          B_col = l_B d, C_col = l_C d, U_col = l_U d, V_col = l_V d, W_col = l_W d,
          Diameter = l_Diameter d, I_col = l_I d, J_col = l_J d, Q_col = l_Q d,
          Comment = l_Comment d\<rparr>]\<rparr>"
  unfolding update_line_known [OF assms] write_line_eq
  by (cases "offsets s ! row") simp

theorem update_line_overwrites_data_columns_witness:
  "get_index (l_Tool ((add_tool_array 1)\<lparr>l_Pocket := 9\<rparr>)) (offsets (one_tool_registry 4 1 1)) = Some 0 \<and>
   offsets (update_line ((add_tool_array 1)\<lparr>l_Pocket := 9\<rparr>) (one_tool_registry 4 1 1)) =
     [(example_row 4 1 1)\<lparr>Pocket := 9\<rparr>] \<and>
   tools (update_line ((add_tool_array 1)\<lparr>l_Pocket := 9\<rparr>) (one_tool_registry 4 1 1)) =
     tools (one_tool_registry 4 1 1)"
  using update_line_overwrites_data_columns
    [of "(add_tool_array 1)\<lparr>l_Pocket := 9\<rparr>" "one_tool_registry 4 1 1" 0]
  by (simp add: one_tool_registry_def init_registry_def example_row_eq add_tool_array_def)

subsection \<open>Printing and reading decimals\<close>

lemma digit_of_nth: "k < 10 \<Longrightarrow> digit_of (''0123456789'' ! k) = Some k"
proof -
  assume "k < 10"
  then have "k \<in> set [0..<10]" by simp
  moreover have "\<forall>k\<in>set [0..<10]. digit_of (''0123456789'' ! k) = Some k"
    by (simp add: digit_of_def upt_rec)
  ultimately show ?thesis by blast
qed

lemma digit_of_dec_digit: "digit_of (dec_digit n) = Some (n mod 10)"
  unfolding dec_digit_def by (rule digit_of_nth) simp

lemma dec_digit_not_mark: "dec_digit n \<noteq> CHR ''.''" "dec_digit n \<noteq> CHR ''-''"
  using digit_of_dec_digit [of n] by (auto simp: digit_of_def upt_rec)

lemma dec_digits_step:
  "n < 10 \<Longrightarrow> dec_digits n = [dec_digit n]"
  "\<not> n < 10 \<Longrightarrow> dec_digits n = dec_digits (n div 10) @ [dec_digit n]"
  by (simp_all add: dec_digits.simps [of n])

lemma dec_digits_marks:
  "dec_digits n \<noteq> [] \<and> CHR ''.'' \<notin> set (dec_digits n) \<and> hd (dec_digits n) \<noteq> CHR ''-''"
proof (induction n rule: dec_digits.induct)
  case (1 n)
  show ?case
  proof (cases "n < 10")
    case True
    then show ?thesis using dec_digit_not_mark [of n] by (auto simp: dec_digits_step)
  next
    case False
    then show ?thesis
      using "1.IH" dec_digit_not_mark [of n] by (auto simp: dec_digits_step)
  qed
qed

lemma nat_of_digits_append:
  "nat_of_digits acc (ds @ es) =
     (case nat_of_digits acc ds of None \<Rightarrow> None | Some a \<Rightarrow> nat_of_digits a es)"
  by (induction ds arbitrary: acc) (auto split: option.splits)

lemma nat_of_digits_dec_digits:
  "nat_of_digits acc (dec_digits n) = Some (acc * 10 ^ length (dec_digits n) + n)"
proof (induction n arbitrary: acc rule: dec_digits.induct)
  case (1 n)
  show ?case
  proof (cases "n < 10")
    case True
    then show ?thesis by (simp add: dec_digits_step digit_of_dec_digit)
  next
    case False
    have n: "10 * (n div 10) + n mod 10 = n" by simp
    have "nat_of_digits acc (dec_digits n) =
        Some (10 * (acc * 10 ^ length (dec_digits (n div 10)) + n div 10) + n mod 10)"
      using False "1.IH" by (simp add: dec_digits_step nat_of_digits_append digit_of_dec_digit)
    also have "10 * (acc * 10 ^ length (dec_digits (n div 10)) + n div 10) + n mod 10 =
        acc * 10 ^ length (dec_digits n) + n"
      using False n by (simp add: dec_digits_step algebra_simps)
    finally show ?thesis .
  qed
qed

lemma nat_of_digits_zeros: "nat_of_digits acc (replicate k (CHR ''0'')) = Some (acc * 10 ^ k)"
proof (induction k arbitrary: acc)
  case 0
  show ?case by simp
next
  case (Suc k)
  have "digit_of (CHR ''0'') = Some 0" by (simp add: digit_of_def upt_rec)
  then show ?case using Suc by simp
qed

lemma nat_of_digits_zero_pad: "nat_of_digits 0 (zero_pad p (dec_digits n)) = Some n"
  by (simp add: zero_pad_def nat_of_digits_append nat_of_digits_zeros nat_of_digits_dec_digits)

lemma length_dec_digits: "0 < p \<Longrightarrow> n < 10 ^ p \<Longrightarrow> length (dec_digits n) \<le> p"
proof (induction n arbitrary: p rule: dec_digits.induct)
  case (1 n)
  show ?case
  proof (cases "n < 10")
    case True
    then show ?thesis using "1.prems" by (simp add: dec_digits_step)
  next
    case False
    obtain q where p: "p = Suc q" using "1.prems"(1) by (cases p) auto
    have "q \<noteq> 0" using False "1.prems"(2) p by (cases q) auto
    then have q: "0 < q" by simp
    have "n div 10 < 10 ^ q"
      using "1.prems"(2) p by (simp add: less_mult_imp_div_less mult.commute)
    then have "length (dec_digits (n div 10)) \<le> q"
      using "1.IH" False q by simp
    then show ?thesis using False p by (simp add: dec_digits_step)
  qed
qed

lemma length_zero_pad: "length ds \<le> p \<Longrightarrow> length (zero_pad p ds) = p"
  by (simp add: zero_pad_def)

lemma float_of_string_parts:
  assumes "ip \<noteq> []" "fp \<noteq> []" "CHR ''.'' \<notin> set ip" "hd ip \<noteq> CHR ''-''"
    and "nat_of_digits 0 ip = Some a" "nat_of_digits 0 fp = Some b"
  shows "float_of_string (ip @ ''.'' @ fp) = Some (real a + real b / 10 ^ length fp)"
    and "float_of_string (''-'' @ ip @ ''.'' @ fp) = Some (- (real a + real b / 10 ^ length fp))"
proof -
  have tw: "takeWhile (\<lambda>c. c \<noteq> CHR ''.'') (ip @ CHR ''.'' # fp) = ip"
    using assms(3) by (subst takeWhile_append2) auto
  have hd: "hd (ip @ CHR ''.'' # fp) \<noteq> CHR ''-''"
    using assms(1,4) by simp
  show "float_of_string (ip @ ''.'' @ fp) = Some (real a + real b / 10 ^ length fp)"
    using assms(1,2,5,6) hd by (simp add: float_of_string_def tw)
  show "float_of_string (''-'' @ ip @ ''.'' @ fp) = Some (- (real a + real b / 10 ^ length fp))"
    using assms(1,2,5,6) by (simp add: float_of_string_def tw)
qed

lemma real_div_mod: "real (m div q) * real q + real (m mod q) = real m"
  by (simp flip: of_nat_mult of_nat_add)

lemma float_of_string_format_f:
  assumes "0 < p"
  shows "float_of_string (format_f p x) = Some (decimal_round p x)"
proof -
  define m where "m = nat (round_half_even (\<bar>x\<bar> * 10 ^ p))"
  define ip where "ip = dec_digits (m div 10 ^ p)"
  define fp where "fp = zero_pad p (dec_digits (m mod 10 ^ p))"
  have len: "length fp = p"
    unfolding fp_def by (intro length_zero_pad length_dec_digits assms) simp
  have marks: "ip \<noteq> []" "CHR ''.'' \<notin> set ip" "hd ip \<noteq> CHR ''-''"
    using dec_digits_marks [of "m div 10 ^ p"] by (simp_all add: ip_def)
  have fp: "fp \<noteq> []" using len assms by auto
  have a: "nat_of_digits 0 ip = Some (m div 10 ^ p)"
    by (simp add: ip_def nat_of_digits_dec_digits)
  have b: "nat_of_digits 0 fp = Some (m mod 10 ^ p)"
    by (simp add: fp_def nat_of_digits_zero_pad)
  have "real (m div 10 ^ p) * 10 ^ p + real (m mod 10 ^ p) = real m"
    using real_div_mod [of m "10 ^ p"] by simp
  then have val: "real (m div 10 ^ p) + real (m mod 10 ^ p) / 10 ^ p = real m / 10 ^ p"
    by (simp add: field_simps)
  have fmt: "format_f p x = (if x < 0 then ''-'' else '''') @ ip @ ''.'' @ fp"
    by (simp add: format_f_def m_def ip_def fp_def Let_def)
  show ?thesis
  proof (cases "x < 0")
    case True
    have "float_of_string (''-'' @ ip @ ''.'' @ fp) = Some (- (real m / 10 ^ p))"
      using float_of_string_parts(2) [OF marks(1) fp marks(2,3) a b] len val by simp
    then show ?thesis using True by (simp add: fmt decimal_round_def m_def)
  next
    case False
    have "float_of_string (ip @ ''.'' @ fp) = Some (real m / 10 ^ p)"
      using float_of_string_parts(1) [OF marks(1) fp marks(2,3) a b] len val by simp
    then show ?thesis using False by (simp add: fmt decimal_round_def m_def)
  qed
qed

subsection \<open>Doubles in the TIME column\<close>

lemmas double_defs = round_double_def exponent2_def pow2_def round_half_even_def bit_length.simps

lemmas format_defs = format_f_def round_half_even_def dec_digits.simps dec_digit_def zero_pad_def

text \<open>What \<open>float\<close> reads from a TIME cell that holds a float: the double next to the
  decimal that the cell displays.\<close>

lemma py_float_tool_data:
  assumes "row < length ts" "TIME (ts ! row) = VFloat x"
  shows "py_float (tool_data metric ts row) =
     Inr (round_double (decimal_round (if metric then 3 else 4) x))"
  using assms by (simp add: py_float_def tool_data_def float_of_string_format_f)

lemma real_affinity_format_f:
  "0 < p \<Longrightarrow> real_affinity (VStr (format_f p x)) = VFloat (round_double (decimal_round p x))"
  by (simp add: real_affinity_def float_of_string_format_f)

text \<open>The numbers of the examples: 5.000 and 0.000 minutes are read as 5 and 0, the
  products with 60 are 300 and 0; 300 / 60 is 5; 312 / 60 and 12 / 60 are the doubles next
  to 5.2 and 0.2 and print as 5.200 and 0.200, which are stored as the same doubles.\<close>

lemma seed_five:
  "round_double (decimal_round 3 5) = 5" "round_double (decimal_round 4 5) = 5"
  "round_double 300 = 300"
  by (simp_all add: decimal_round_def double_defs)

lemma seed_zero:
  "round_double (decimal_round 3 0) = 0" "round_double 0 = 0"
  by (simp_all add: decimal_round_def double_defs)

lemma quotient_300: "round_double 5 = 5"
  by (simp add: double_defs)

lemma quotient_12: "round_double (1 / 5) = 3602879701896397 / 18014398509481984"
  by (simp add: double_defs)

lemma stored_12:
  "round_double (decimal_round 3 (3602879701896397 / 18014398509481984)) =
     3602879701896397 / 18014398509481984"
  by (simp add: decimal_round_def double_defs)

lemma shown_12: "format_f 3 (3602879701896397 / 18014398509481984) = ''0.200''"
  by (simp add: format_defs numeral_3_eq_3)

lemma shown_300: "format_f 3 5 = ''5.000''"
  by (simp add: format_defs numeral_3_eq_3)

lemma quotient_312: "round_double (312 / 60) = 5854679515581645 / 1125899906842624"
  by (simp add: double_defs)

lemma quotient_312_lowest: "round_double (26 / 5) = 5854679515581645 / 1125899906842624"
  by (simp add: double_defs)

lemma stored_312:
  "round_double (decimal_round 3 (5854679515581645 / 1125899906842624)) =
     5854679515581645 / 1125899906842624"
  by (simp add: decimal_round_def double_defs)

lemma shown_312: "format_f 3 (5854679515581645 / 1125899906842624) = ''5.200''"
  by (simp add: format_defs numeral_3_eq_3)

section \<open>Reconciliation and selection\<close>

subsection \<open>Rows written in place\<close>

lemma write_line_fields [simp]:
  "idn (write_line d r) = idn r" "Chk (write_line d r) = Chk r" "Tool (write_line d r) = l_Tool d"
  by (simp_all add: write_line_eq)

lemma write_line_absorb [simp]: "write_line e (write_line d r) = write_line e r"
  by (simp add: write_line_eq)

lemma write_line_idn_update: "write_line d (r\<lparr>idn := k\<rparr>) = (write_line d r)\<lparr>idn := k\<rparr>"
  by (simp add: write_line_eq)

lemma upd_first_index:
  "get_index (l_Tool d) rows = Some i \<Longrightarrow> rows[i := write_line d (rows ! i)] = upd_first d rows"
proof (induction rows arbitrary: i)
  case Nil
  then show ?case by simp
next
  case (Cons r rs)
  show ?case
  proof (cases "Tool r = l_Tool d")
    case True
    with Cons.prems show ?thesis by simp
  next
    case False
    with Cons.prems obtain k where "get_index (l_Tool d) rs = Some k" "i = Suc k"
      by auto
    with Cons.IH False show ?thesis by simp
  qed
qed

lemma get_index_present: "tno \<in> Tool ` set rows \<Longrightarrow> \<exists>i. get_index tno rows = Some i"
  using get_index_None [of tno rows] by (cases "get_index tno rows") auto

lemma update_line_present:
  assumes "l_Tool d \<in> Tool ` set (offsets s)"
  shows "update_line d s =
     s\<lparr>tool_list := tool_list s @ [l_Tool d], offsets := upd_first d (offsets s)\<rparr>"
proof -
  from get_index_present [OF assms] obtain i where i: "get_index (l_Tool d) (offsets s) = Some i" ..
  have "i < length (offsets s)" using get_index_Some [OF i] by simp
  then show ?thesis
    using i upd_first_index [OF i] by (simp add: update_line_def Let_def update_row_eq)
qed

lemma update_line_absent:
  assumes "l_Tool d \<notin> Tool ` set (offsets s)"
  shows "update_line d s =
     s\<lparr>tool_list := tool_list s @ [l_Tool d],
       offsets := offsets s @ [(write_line d empty_record)\<lparr>idn := next_idn s\<rparr>],
       seq := next_idn s,
       tools := tool_addrow (next_idn s) (l_Tool d) (tools s)\<rparr>"
  using assms get_index_None [of "l_Tool d" "offsets s"]
  by (simp add: update_line_def Let_def addrow_def next_idn_def)

lemma map_Tool_upd_first [simp]: "map Tool (upd_first d rows) = map Tool rows"
  by (induction rows) auto

lemma map_idn_upd_first [simp]: "map idn (upd_first d rows) = map idn rows"
  by (induction rows) auto

lemma map_Chk_upd_first [simp]: "map Chk (upd_first d rows) = map Chk rows"
  by (induction rows) auto

lemma set_Tool_upd_first [simp]: "Tool ` set (upd_first d rows) = Tool ` set rows"
  using map_Tool_upd_first [of d rows] by (metis set_map)

subsection \<open>Keys\<close>

lemma fold_max_ge: "a \<le> fold max xs (a::int)"
proof (induction xs arbitrary: a)
  case Nil
  show ?case by simp
next
  case (Cons x xs)
  have "a \<le> max x a" by simp
  also have "\<dots> \<le> fold max xs (max x a)" by (rule Cons.IH)
  finally show ?case by simp
qed

lemma fold_max_mem: "x \<in> set xs \<Longrightarrow> x \<le> fold max xs (a::int)"
proof (induction xs arbitrary: a)
  case Nil
  then show ?case by simp
next
  case (Cons y ys)
  show ?case
  proof (cases "x = y")
    case True
    have "x \<le> max y a" using True by simp
    also have "\<dots> \<le> fold max ys (max y a)" by (rule fold_max_ge)
    finally show ?thesis by simp
  next
    case False
    with Cons.prems have "x \<in> set ys" by simp
    then show ?thesis using Cons.IH by simp
  qed
qed

lemma next_idn_fresh: "next_idn s \<notin> idn ` set (offsets s)"
proof
  assume "next_idn s \<in> idn ` set (offsets s)"
  then have "next_idn s \<in> set (map idn (offsets s))" by simp
  then have "next_idn s \<le> fold max (map idn (offsets s)) (seq s)" by (rule fold_max_mem)
  then show False by (simp add: next_idn_def)
qed

subsection \<open>One line of the tool array\<close>

lemma tool_list_update_line [simp]: "tool_list (update_line d s) = tool_list s @ [l_Tool d]"
  by (cases "l_Tool d \<in> Tool ` set (offsets s)")
     (simp_all add: update_line_present update_line_absent)

lemma tools_of_update_line:
  "Tool ` set (offsets (update_line d s)) = insert (l_Tool d) (Tool ` set (offsets s))"
  by (cases "l_Tool d \<in> Tool ` set (offsets s)")
     (auto simp: update_line_present update_line_absent)

lemma fold_update_line_tool_list:
  "tool_list (fold update_line ds s) = tool_list s @ map l_Tool ds"
  by (induction ds arbitrary: s) simp_all

lemma fold_update_line_tools:
  "Tool ` set (offsets (fold update_line ds s)) = l_Tool ` set ds \<union> Tool ` set (offsets s)"
  by (induction ds arbitrary: s) (auto simp: tools_of_update_line)

subsection \<open>Deleting rows\<close>

lemma removeRow_split:
  "i < length xs \<Longrightarrow> xs = take i xs @ xs ! i # drop (Suc i) xs"
  by (simp add: id_take_nth_drop)

lemma filter_removeRow_drop:
  assumes "i < length xs" "\<not> P (xs ! i)"
  shows "filter P (removeRow i xs) = filter P xs"
proof -
  have "filter P xs = filter P (take i xs @ xs ! i # drop (Suc i) xs)"
    using removeRow_split [OF assms(1)] by simp
  also have "\<dots> = filter P (removeRow i xs)"
    using assms(2) by (simp add: removeRow_def)
  finally show ?thesis by simp
qed

lemma mset_filter_removeRow:
  assumes "i < length xs" "P (xs ! i)"
  shows "mset (map f (filter P xs)) = add_mset (f (xs ! i)) (mset (map f (filter P (removeRow i xs))))"
proof -
  have "filter P xs = filter P (take i xs @ xs ! i # drop (Suc i) xs)"
    using removeRow_split [OF assms(1)] by simp
  then show ?thesis using assms(2) by (simp add: removeRow_def)
qed

lemma map_removeRow: "map f (removeRow i xs) = removeRow i (map f xs)"
  by (simp add: removeRow_def take_map drop_map)

lemma tool_list_delrow [simp]: "tool_list (delrow tno s) = tool_list s"
  by (simp add: delrow_def split: option.split)

lemma fold_delrow_tool_list [simp]: "tool_list (fold delrow ts s) = tool_list s"
  by (induction ts arbitrary: s) simp_all

lemma fold_delrow_offsets:
  "mset ts = mset (delete_list s) \<Longrightarrow>
   offsets (fold delrow ts s) = filter (\<lambda>r. Tool r \<in> set (tool_list s)) (offsets s)"
proof (induction ts arbitrary: s)
  case Nil
  then have "delete_list s = []" by simp
  then have "\<forall>r\<in>set (offsets s). Tool r \<in> set (tool_list s)"
    by (auto simp: delete_list_def filter_empty_conv)
  then show ?case by simp
next
  case (Cons t ts)
  have "set (t # ts) = set (delete_list s)" using Cons.prems by (rule mset_eq_setD)
  then have "t \<in> set (delete_list s)" by auto
  then have t: "t \<in> Tool ` set (offsets s)" "t \<notin> set (tool_list s)"
    by (auto simp: delete_list_def)
  from get_index_present [OF t(1)] obtain i where i: "get_index t (offsets s) = Some i" ..
  note gi = get_index_Some [OF i]
  have eq: "delrow t s =
      s\<lparr>offsets := removeRow i (offsets s),
        tools := tool_select (tool_sort s) (removeRow i (tools s))\<rparr>"
    using i by (simp add: delrow_def)
  have del: "\<not> Tool (offsets s ! i) \<in> set (tool_list s)" using gi t(2) by simp
  have "mset (delete_list s) = add_mset t (mset (delete_list (delrow t s)))"
    unfolding delete_list_def eq
    using mset_filter_removeRow [of i "offsets s" "\<lambda>r. Tool r \<notin> set (tool_list s)" Tool] gi del
    by simp
  then have "mset ts = mset (delete_list (delrow t s))"
    using Cons.prems by simp
  then have "offsets (fold delrow ts (delrow t s)) =
      filter (\<lambda>r. Tool r \<in> set (tool_list (delrow t s))) (offsets (delrow t s))"
    by (rule Cons.IH)
  also have "\<dots> = filter (\<lambda>r. Tool r \<in> set (tool_list s)) (removeRow i (offsets s))"
    by (simp add: eq)
  also have "\<dots> = filter (\<lambda>r. Tool r \<in> set (tool_list s)) (offsets s)"
    using gi del by (intro filter_removeRow_drop) simp_all
  finally show ?case by simp
qed

subsection \<open>The whole reconciliation\<close>

lemma update_phases:
  "update ds s =
     fold delrow (rev (delete_list (fold update_line ds (s\<lparr>tool_list := []\<rparr>))))
       (fold update_line ds (s\<lparr>tool_list := []\<rparr>))"
proof -
  have r: "(if 1 < length xs then rev xs else xs) = rev xs" for xs :: "int list"
  proof (cases xs)
    case Nil
    then show ?thesis by simp
  next
    case (Cons x ys)
    then show ?thesis by (cases ys) simp_all
  qed
  show ?thesis unfolding update_def Let_def r ..
qed

lemma update_tool_list: "tool_list (update ds s) = map l_Tool ds"
  by (simp add: update_phases fold_update_line_tool_list)

lemma update_offsets:
  "offsets (update ds s) =
     filter (\<lambda>r. Tool r \<in> l_Tool ` set ds) (offsets (fold update_line ds (s\<lparr>tool_list := []\<rparr>)))"
  unfolding update_phases
  by (subst fold_delrow_offsets) (simp_all add: fold_update_line_tool_list)

lemma image_filter_self: "f ` set (filter (\<lambda>r. f r \<in> A) xs) = f ` set xs \<inter> A"
  by auto

lemma update_offsets_tools: "Tool ` set (offsets (update ds s)) = l_Tool ` set ds"
  unfolding update_offsets image_filter_self fold_update_line_tools by auto

text \<open>Evaluation of the reconciliation on the example states.\<close>

lemmas run_defs =
  update_def update_line_def update_row_eq addrow_def next_idn_def tool_addrow_def
  delete_list_def delrow_def removeRow_def tool_select_def Let_def
  two_tool_registry_def one_tool_registry_def started_registry_def init_tool_view_def
  init_registry_def example_row_eq write_line_eq add_tool_array_def empty_record_def

text \<open>Claim C1 fails in ordinary use. On a started widget tool 2 is added, then tool 1,
  then tool 3; the offsets model lists 2, 1, 3 and so does the tools model, whose rows were
  appended. Reconciling with an array that holds tool 2 only deletes tool 3 from both models
  at row 2 and selects the tools model again, now sorted 1, 2; then it deletes tool 1 from
  the offsets model at row 1 and, at the same index, tool 2 from the tools model. The
  offsets table is left with tool 2, the tools table with tool 1.\<close>

theorem update_deletes_other_tool:
  "map Tool (offsets
     (update [add_tool_array 1, add_tool_array 2, add_tool_array 3]
       (update [add_tool_array 1, add_tool_array 2]
         (update [add_tool_array 2] started_registry)))) = [2, 1, 3] \<and>
   map TOOL (tools
     (update [add_tool_array 1, add_tool_array 2, add_tool_array 3]
       (update [add_tool_array 1, add_tool_array 2]
         (update [add_tool_array 2] started_registry)))) = [2, 1, 3] \<and>
   map Tool (offsets
     (update [add_tool_array 2]
       (update [add_tool_array 1, add_tool_array 2, add_tool_array 3]
         (update [add_tool_array 1, add_tool_array 2]
           (update [add_tool_array 2] started_registry))))) = [2] \<and>
   map TOOL (tools
     (update [add_tool_array 2]
       (update [add_tool_array 1, add_tool_array 2, add_tool_array 3]
         (update [add_tool_array 1, add_tool_array 2]
           (update [add_tool_array 2] started_registry))))) = [1]"
  by (simp add: run_defs)

subsection \<open>A second pass over the same tool array\<close>

lemma upd_first_absorb:
  "l_Tool d = l_Tool e \<Longrightarrow> upd_first e (upd_first d rows) = upd_first e rows"
  by (induction rows) auto

lemma upd_first_commute:
  "l_Tool d \<noteq> l_Tool e \<Longrightarrow> upd_first e (upd_first d rows) = upd_first d (upd_first e rows)"
  by (induction rows) auto

lemma filter_upd_first_other:
  "l_Tool d \<notin> A \<Longrightarrow>
   filter (\<lambda>r. Tool r \<in> A) (upd_first d rows) = filter (\<lambda>r. Tool r \<in> A) rows"
  by (induction rows) auto

lemma upd_first_absent: "l_Tool d \<notin> Tool ` set rows \<Longrightarrow> upd_first d rows = rows"
  by (induction rows) auto

lemma upd_first_filter:
  "upd_first d (filter (\<lambda>r. Tool r \<in> A) rows) = filter (\<lambda>r. Tool r \<in> A) (upd_first d rows)"
proof (cases "l_Tool d \<in> A")
  case True
  then show ?thesis by (induction rows) auto
next
  case False
  then have "l_Tool d \<notin> Tool ` set (filter (\<lambda>r. Tool r \<in> A) rows)" by auto
  then show ?thesis
    using False by (simp add: upd_first_absent filter_upd_first_other)
qed

lemma upd_first_append_present:
  "l_Tool d \<in> Tool ` set rows \<Longrightarrow> upd_first d (rows @ [r]) = upd_first d rows @ [r]"
  by (induction rows) auto

lemma upd_first_append_absent:
  "l_Tool d \<notin> Tool ` set rows \<Longrightarrow> Tool r = l_Tool d \<Longrightarrow>
   upd_first d (rows @ [r]) = rows @ [write_line d r]"
  by (induction rows) auto

lemma fold_upd_first_Tool [simp]: "Tool ` set (fold upd_first ds rows) = Tool ` set rows"
  by (induction ds arbitrary: rows) simp_all

lemma fold_upd_first_absorb:
  "l_Tool d \<in> l_Tool ` set ds \<Longrightarrow> fold upd_first ds (upd_first d rows) = fold upd_first ds rows"
proof (induction ds arbitrary: rows)
  case Nil
  then show ?case by simp
next
  case (Cons e ds)
  show ?case
  proof (cases "l_Tool d = l_Tool e")
    case True
    then show ?thesis by (simp add: upd_first_absorb)
  next
    case False
    with Cons.prems have mem: "l_Tool d \<in> l_Tool ` set ds" by auto
    have "fold upd_first (e # ds) (upd_first d rows) = fold upd_first ds (upd_first d (upd_first e rows))"
      using False by (simp add: upd_first_commute)
    also have "\<dots> = fold upd_first ds (upd_first e rows)"
      by (rule Cons.IH [OF mem])
    finally show ?thesis by simp
  qed
qed

lemma fold_upd_first_commute:
  "l_Tool d \<notin> l_Tool ` set ds \<Longrightarrow>
   fold upd_first ds (upd_first d rows) = upd_first d (fold upd_first ds rows)"
proof (induction ds arbitrary: rows)
  case Nil
  then show ?case by simp
next
  case (Cons e ds)
  then have ne: "l_Tool d \<noteq> l_Tool e" and nm: "l_Tool d \<notin> l_Tool ` set ds" by auto
  have "fold upd_first (e # ds) (upd_first d rows) = fold upd_first ds (upd_first d (upd_first e rows))"
    using ne by (simp add: upd_first_commute)
  also have "\<dots> = upd_first d (fold upd_first ds (upd_first e rows))"
    by (rule Cons.IH [OF nm])
  finally show ?case by simp
qed

lemma fold_upd_first_append:
  "l_Tool ` set ds \<subseteq> Tool ` set rows \<Longrightarrow>
   fold upd_first ds (rows @ [r]) = fold upd_first ds rows @ [r]"
proof (induction ds arbitrary: rows)
  case Nil
  then show ?case by simp
next
  case (Cons e ds)
  then have e: "l_Tool e \<in> Tool ` set rows" and sub: "l_Tool ` set ds \<subseteq> Tool ` set (upd_first e rows)"
    by auto
  show ?case
    using Cons.IH [OF sub] by (simp add: upd_first_append_present [OF e])
qed

lemma fold_upd_first_filter:
  "fold upd_first ds (filter (\<lambda>r. Tool r \<in> A) rows) =
   filter (\<lambda>r. Tool r \<in> A) (fold upd_first ds rows)"
  by (induction ds arbitrary: rows) (simp_all add: upd_first_filter)

text \<open>When every tool of the array has a row, the first loop only rewrites rows.\<close>

lemma fold_update_line_present:
  "l_Tool ` set ds \<subseteq> Tool ` set (offsets s) \<Longrightarrow>
   fold update_line ds s =
     s\<lparr>tool_list := tool_list s @ map l_Tool ds, offsets := fold upd_first ds (offsets s)\<rparr>"
proof (induction ds arbitrary: s)
  case Nil
  then show ?case by simp
next
  case (Cons d ds)
  then have d: "l_Tool d \<in> Tool ` set (offsets s)" by simp
  let ?s1 = "s\<lparr>tool_list := tool_list s @ [l_Tool d], offsets := upd_first d (offsets s)\<rparr>"
  have sub: "l_Tool ` set ds \<subseteq> Tool ` set (offsets ?s1)" using Cons.prems by simp
  have "fold update_line (d # ds) s = fold update_line ds ?s1"
    by (simp add: update_line_present [OF d])
  also have "\<dots> = ?s1\<lparr>tool_list := tool_list ?s1 @ map l_Tool ds,
      offsets := fold upd_first ds (offsets ?s1)\<rparr>"
    by (rule Cons.IH [OF sub])
  finally show ?case by simp
qed

text \<open>After the first loop the rows are a fixed point of the row rewrites of the array.\<close>

lemma first_loop_settled:
  "fold upd_first ds (offsets (fold update_line ds s)) = offsets (fold update_line ds s)"
proof (induction ds rule: rev_induct)
  case Nil
  show ?case by simp
next
  case (snoc d ds)
  let ?s1 = "fold update_line ds s"
  let ?rows = "offsets ?s1"
  have sub: "l_Tool ` set ds \<subseteq> Tool ` set ?rows"
    by (simp add: fold_update_line_tools)
  have ih: "fold upd_first ds ?rows = ?rows" by (rule snoc.IH)
  show ?case
  proof (cases "l_Tool d \<in> Tool ` set ?rows")
    case True
    have rows: "offsets (fold update_line (ds @ [d]) s) = upd_first d ?rows"
      by (simp add: update_line_present [OF True])
    have "upd_first d (fold upd_first ds (upd_first d ?rows)) = upd_first d ?rows"
    proof (cases "l_Tool d \<in> l_Tool ` set ds")
      case True
      have "fold upd_first ds (upd_first d ?rows) = fold upd_first ds ?rows"
        by (rule fold_upd_first_absorb [OF True])
      then show ?thesis by (simp only: ih)
    next
      case False
      have "fold upd_first ds (upd_first d ?rows) = upd_first d (fold upd_first ds ?rows)"
        by (rule fold_upd_first_commute [OF False])
      then show ?thesis by (simp only: ih upd_first_absorb)
    qed
    then show ?thesis
      unfolding rows by simp
  next
    case False
    let ?new = "(write_line d empty_record)\<lparr>idn := next_idn ?s1\<rparr>"
    have rows: "offsets (fold update_line (ds @ [d]) s) = ?rows @ [?new]"
      by (simp add: update_line_absent [OF False])
    have "fold upd_first ds (?rows @ [?new]) = ?rows @ [?new]"
      using fold_upd_first_append [OF sub] ih by simp
    moreover have "upd_first d (?rows @ [?new]) = ?rows @ [write_line d ?new]"
      by (rule upd_first_append_absent [OF False]) simp
    moreover have "write_line d ?new = ?new"
      by (simp add: write_line_idn_update)
    ultimately show ?thesis unfolding rows by simp
  qed
qed

lemma update_settled: "fold upd_first ds (offsets (update ds s)) = offsets (update ds s)"
  unfolding update_offsets fold_upd_first_filter first_loop_settled ..

lemma update_first_loop_again:
  "fold update_line ds ((update ds s)\<lparr>tool_list := []\<rparr>) = update ds s"
proof -
  let ?s' = "update ds s"
  have sub: "l_Tool ` set ds \<subseteq> Tool ` set (offsets (?s'\<lparr>tool_list := []\<rparr>))"
    by (simp add: update_offsets_tools)
  have "fold update_line ds (?s'\<lparr>tool_list := []\<rparr>) =
      ?s'\<lparr>tool_list := [], tool_list := tool_list (?s'\<lparr>tool_list := []\<rparr>) @ map l_Tool ds,
          offsets := fold upd_first ds (offsets (?s'\<lparr>tool_list := []\<rparr>))\<rparr>"
    by (rule fold_update_line_present [OF sub])
  also have "\<dots> = ?s'\<lparr>tool_list := tool_list ?s', offsets := offsets ?s'\<rparr>"
    by (simp add: update_settled update_tool_list)
  also have "\<dots> = ?s'" by simp
  finally show ?thesis .
qed

lemma update_nothing_to_delete: "delete_list (update ds s) = []"
proof -
  have "\<forall>r\<in>set (offsets (update ds s)). Tool r \<in> set (tool_list (update ds s))"
    using update_offsets_tools [of ds s] by (auto simp: update_tool_list)
  then show ?thesis by (simp add: delete_list_def)
qed

text \<open>Claim C2. Right after \<open>update\<close> with a tool array, a second \<open>update\<close> with the
  same array finds a row for every line, so it inserts nothing; its first loop leaves the
  state as it is; its delete list is empty; and the state after it is the state before
  it.\<close>

theorem update_idempotent:
  "(\<forall>d\<in>set ds. get_index (l_Tool d) (offsets (update ds s)) \<noteq> None) \<and>
   fold update_line ds ((update ds s)\<lparr>tool_list := []\<rparr>) = update ds s \<and>
   delete_list (update ds s) = [] \<and>
   update ds (update ds s) = update ds s"
proof (intro conjI ballI)
  fix d
  assume "d \<in> set ds"
  then have "l_Tool d \<in> Tool ` set (offsets (update ds s))"
    by (simp add: update_offsets_tools)
  then show "get_index (l_Tool d) (offsets (update ds s)) \<noteq> None"
    by (simp add: get_index_None)
next
  show "fold update_line ds ((update ds s)\<lparr>tool_list := []\<rparr>) = update ds s"
    by (rule update_first_loop_again)
next
  show "delete_list (update ds s) = []" by (rule update_nothing_to_delete)
next
  show "update ds (update ds s) = update ds s"
    unfolding update_phases [of ds "update ds s"] update_first_loop_again update_nothing_to_delete
    by simp
qed

theorem update_idempotent_witness:
  "get_index (l_Tool (add_tool_array 3))
     (offsets (update [add_tool_array 1, add_tool_array 3] two_tool_registry)) = Some 1 \<and>
   map Tool (offsets (update [add_tool_array 1, add_tool_array 3] two_tool_registry)) = [1, 3] \<and>
   update [add_tool_array 1, add_tool_array 3]
     (update [add_tool_array 1, add_tool_array 3] two_tool_registry) =
   update [add_tool_array 1, add_tool_array 3] two_tool_registry"
proof -
  have run: "map Tool (offsets (update [add_tool_array 1, add_tool_array 3] two_tool_registry)) = [1, 3]"
    "get_index (l_Tool (add_tool_array 3))
     (offsets (update [add_tool_array 1, add_tool_array 3] two_tool_registry)) = Some 1"
    by (simp_all add: run_defs)
  show ?thesis
    using run update_idempotent [of "[add_tool_array 1, add_tool_array 3]" two_tool_registry]
    by simp
qed

subsection \<open>The checked tool\<close>

lemma filter_update_only:
  assumes "\<forall>x\<in>set xs. \<not> P x" "i < length xs" "P y"
  shows "filter P (xs[i := y]) = [y]"
proof -
  have "set (take i xs) \<subseteq> set xs" "set (drop (Suc i) xs) \<subseteq> set xs"
    by (rule set_take_subset, rule set_drop_subset)
  then have "filter P (take i xs) = []" "filter P (drop (Suc i) xs) = []"
    using assms(1) by (auto simp: filter_empty_conv)
  then show ?thesis
    using assms(2,3) by (simp add: upd_conv_take_nth_drop)
qed

lemma filter_update_less:
  assumes "\<not> P y"
  shows "length (filter P (xs[i := y])) \<le> length (filter P xs)"
proof (cases "i < length xs")
  case True
  have "length (filter P xs) = length (filter P (take i xs @ xs ! i # drop (Suc i) xs))"
    using id_take_nth_drop [OF True] by simp
  then show ?thesis
    using True assms by (simp add: upd_conv_take_nth_drop)
next
  case False
  then show ?thesis by (simp add: list_update_beyond not_less)
qed

lemma setData_Chk_Suc:
  "row < length rs \<Longrightarrow> setData row (Suc 0) (VInt i) rs = rs[row := (rs ! row)\<lparr>Chk := i\<rparr>]"
  using setData_Chk [of row rs i] by simp

lemma checked_count_Chk:
  "length (filter (\<lambda>r. Chk r = 1) rows) = length (filter (\<lambda>c. c = 1) (map Chk rows))"
  by (simp add: filter_map comp_def)

lemma setData_check_Checked:
  assumes "row < length (offsets s)"
  shows "list_checked_tools (setData_check row Checked s) = [Tool (offsets s ! row)]"
proof -
  let ?u = "\<lambda>r. if Chk r = 1 then r\<lparr>Chk := 0\<rparr> else r"
  let ?xs = "map ?u (offsets s)"
  let ?y = "(?xs ! row)\<lparr>Chk := 1\<rparr>"
  have len: "row < length ?xs" using assms by simp
  have rows: "offsets (setData_check row Checked s) = ?xs[row := ?y]"
    using assms len by (simp add: setData_check_def uncheck_all_tools_eq setData_Chk_Suc)
  have none: "\<forall>x\<in>set ?xs. \<not> Chk x = 1" by auto
  have "filter (\<lambda>r. Chk r = 1) (?xs[row := ?y]) = [?y]"
    using none len by (rule filter_update_only) simp
  then have "list_checked_tools (setData_check row Checked s) = [Tool ?y]"
    unfolding list_checked_tools_eq rows by simp
  also have "Tool ?y = Tool (offsets s ! row)" using assms by simp
  finally show ?thesis .
qed

lemma setData_check_count:
  assumes "length (list_checked_tools s) \<le> 1"
  shows "length (list_checked_tools (setData_check row v s)) \<le> 1"
proof (cases "row < length (offsets s)")
  case False
  then show ?thesis using assms by (simp add: setData_check_def)
next
  case True
  show ?thesis
  proof (cases v)
    case Checked
    then show ?thesis using setData_check_Checked [OF True] by simp
  next
    case PartiallyChecked
    then show ?thesis using assms True by (simp add: setData_check_def)
  next
    case Unchecked
    have rows: "offsets (setData_check row Unchecked s) =
        (offsets s)[row := (offsets s ! row)\<lparr>Chk := 0\<rparr>]"
      using True by (simp add: setData_check_def setData_Chk_Suc)
    have "length (filter (\<lambda>r. Chk r = 1) ((offsets s)[row := (offsets s ! row)\<lparr>Chk := 0\<rparr>]))
        \<le> length (filter (\<lambda>r. Chk r = 1) (offsets s))"
      by (rule filter_update_less) simp
    then show ?thesis
      using assms unfolding Unchecked list_checked_tools_eq rows by simp
  qed
qed

lemma update_line_checked:
  "map Chk (offsets (update_line d s)) =
     map Chk (offsets s) @ (if l_Tool d \<in> Tool ` set (offsets s) then [] else [0])"
proof (cases "l_Tool d \<in> Tool ` set (offsets s)")
  case True
  then show ?thesis by (simp add: update_line_present)
next
  case False
  then show ?thesis by (simp add: update_line_absent empty_record_def)
qed

lemma update_line_checked_count:
  "length (filter (\<lambda>r. Chk r = 1) (offsets (update_line d s))) =
   length (filter (\<lambda>r. Chk r = 1) (offsets s))"
  unfolding checked_count_Chk update_line_checked by simp

lemma fold_update_line_checked_count:
  "length (filter (\<lambda>r. Chk r = 1) (offsets (fold update_line ds s))) =
   length (filter (\<lambda>r. Chk r = 1) (offsets s))"
  by (induction ds arbitrary: s) (simp_all add: update_line_checked_count)

lemma length_filter_filter: "length (filter P (filter Q xs)) \<le> length (filter P xs)"
  by (induction xs) auto

lemma update_checked_count:
  "length (list_checked_tools (update ds s)) \<le> length (list_checked_tools s)"
proof -
  have "length (list_checked_tools (update ds s)) =
      length (filter (\<lambda>r. Chk r = 1) (offsets (update ds s)))"
    by (simp add: list_checked_tools_eq)
  also have "\<dots> \<le>
      length (filter (\<lambda>r. Chk r = 1) (offsets (fold update_line ds (s\<lparr>tool_list := []\<rparr>))))"
    unfolding update_offsets by (rule length_filter_filter)
  also have "\<dots> = length (list_checked_tools s)"
    unfolding list_checked_tools_eq fold_update_line_checked_count by simp
  finally show ?thesis .
qed

text \<open>Claim C3. No row is checked at start-up. Checking a row through \<open>setData\<close>
  makes \<open>list_checked_tools\<close> return exactly the tool number of that row, from every
  state. When at most one row is checked, this still holds after \<open>setData\<close> with any
  check state on any row, and after a reconciliation with any tool array.\<close>

theorem checked_tool_exclusive:
  "list_checked_tools init_registry = [] \<and>
   (row < length (offsets s) \<longrightarrow>
      list_checked_tools (setData_check row Checked s) = [Tool (offsets s ! row)]) \<and>
   (length (list_checked_tools s) \<le> 1 \<longrightarrow>
      length (list_checked_tools (setData_check row v s)) \<le> 1 \<and>
      length (list_checked_tools (update ds s)) \<le> 1)"
proof (intro conjI impI)
  show "list_checked_tools init_registry = []"
    by (simp add: list_checked_tools_eq init_registry_def)
next
  assume "row < length (offsets s)"
  then show "list_checked_tools (setData_check row Checked s) = [Tool (offsets s ! row)]"
    by (rule setData_check_Checked)
next
  assume "length (list_checked_tools s) \<le> 1"
  then show "length (list_checked_tools (setData_check row v s)) \<le> 1"
    by (rule setData_check_count)
next
  assume "length (list_checked_tools s) \<le> 1"
  then show "length (list_checked_tools (update ds s)) \<le> 1"
    using update_checked_count [of ds s] by simp
qed

theorem checked_tool_exclusive_witness:
  "1 < length (offsets two_tool_registry) \<and>
   list_checked_tools two_tool_registry = [1] \<and>
   list_checked_tools (setData_check 1 Checked two_tool_registry) = [2] \<and>
   length (list_checked_tools (setData_check 0 Unchecked two_tool_registry)) \<le> 1 \<and>
   length (list_checked_tools (update [add_tool_array 3] two_tool_registry)) \<le> 1"
proof -
  have a: "1 < length (offsets two_tool_registry)" "list_checked_tools two_tool_registry = [1]"
    "Tool (offsets two_tool_registry ! 1) = 2"
    by (simp_all add: list_checked_tools_eq two_tool_registry_def init_registry_def example_row_eq)
  show ?thesis
    using a checked_tool_exclusive [of 1 two_tool_registry]
      checked_tool_exclusive [of 0 two_tool_registry Unchecked "[add_tool_array 3]"]
    by simp
qed

section \<open>Usage timer\<close>

text \<open>Where the tools model holds the active tool at the row index of its offsets row, the
  stopwatch does what is expected of it: from 5.000 stored minutes, 120 heartbeats and a stop
  leave the double next to 5.2 in the TIME cell of that tool, displayed as 5.200.\<close>

lemma timer_round_trip_same_row:
  assumes tool: "timer_tool s \<noteq> 0"
    and row: "get_index (timer_tool s) (offsets s) = Some row"
    and len: "row < length (tools s)"
    and same: "TOOL (tools s ! row) = timer_tool s"
    and stored: "TIME (tools s ! row) = VFloat 5"
    and tenths: "0 \<le> timer_tenths s" "timer_tenths s < 10"
  shows "start_tool_timer s = Inr (s\<lparr>running := True, timer_time := 300\<rparr>) \<and>
     tools (stop_tool_timer ((tool_timer ^^ 120) (s\<lparr>running := True, timer_time := 300\<rparr>))) =
       (tools s)[row := (tools s ! row)\<lparr>TIME := VFloat (5854679515581645 / 1125899906842624)\<rparr>] \<and>
     format_f 3 (5854679515581645 / 1125899906842624) = ''5.200''"
proof -
  let ?s1 = "s\<lparr>running := True, timer_time := 300\<rparr>"
  have pre: "py_float (tool_data (tool_metric s) (tools s) row) = Inr 5"
    using py_float_tool_data [OF len stored, of "tool_metric s"] by (simp add: seed_five)
  have start: "start_tool_timer s = Inr ?s1"
    using tool row pre by (simp add: start_tool_timer_def Let_def py_int_def seed_five)
  have run: "(tool_timer ^^ 120) ?s1 =
      ?s1\<lparr>timer_tenths := (timer_tenths ?s1 + int 120) mod 10,
          timer_time := timer_time ?s1 + (timer_tenths ?s1 + int 120) div 10\<rparr>"
    by (rule tool_timer_funpow) (use tenths in simp_all)
  have d: "(timer_tenths s + 120) div 10 = 12" using tenths by simp
  have written: "real_affinity (VStr (format_f 3 (round_double (312 / 60)))) =
      VFloat (5854679515581645 / 1125899906842624)"
    unfolding quotient_312 by (simp add: real_affinity_format_f stored_312)
  have stop: "tools (stop_tool_timer ((tool_timer ^^ 120) ?s1)) =
      (tools s)[row := (tools s ! row)\<lparr>TIME := VFloat (5854679515581645 / 1125899906842624)\<rparr>]"
    unfolding run using d row len written
    by (simp add: stop_tool_timer_def Let_def tool_setData_def)
  show ?thesis using start stop shown_312 by simp
qed

lemma swapped_registry_eq:
  "swapped_registry =
     \<lparr>offsets = [example_row 1 0 5, example_row 2 0 2],
      tools = [\<lparr>t_idn = 2, TOOL = 2, TIME = VFloat 5\<rparr>, \<lparr>t_idn = 1, TOOL = 5, TIME = VFloat 0\<rparr>],
      seq = 3, tool_list = [5, 2], offset_metric = True, tool_metric = True, tool_sort = True,
      current_row = Some 1, running = False, timer_tool = 2, timer_time = 300,
      timer_tenths = 0, next_available = 0\<rparr>"
proof -
  let ?added = "\<lparr>offsets = [example_row 1 0 5, example_row 2 0 2],
      tools = [\<lparr>t_idn = 1, TOOL = 5, TIME = VFloat 0\<rparr>, \<lparr>t_idn = 2, TOOL = 2, TIME = VFloat 0\<rparr>],
      seq = 2, tool_list = [5, 2], offset_metric = True, tool_metric = True, tool_sort = True,
      current_row = Some 0, running = False, timer_tool = 0, timer_time = 0,
      timer_tenths = 0, next_available = 0\<rparr>"
  let ?loaded = "?added\<lparr>current_row := Some 1, timer_tool := 2, running := True\<rparr>"
  let ?worn = "?loaded\<lparr>timer_time := 300, running := False,
      tools := [\<lparr>t_idn = 1, TOOL = 5, TIME = VFloat 0\<rparr>, \<lparr>t_idn = 2, TOOL = 2, TIME = VFloat 5\<rparr>]\<rparr>"
  have added: "update [add_tool_array 5, add_tool_array 2]
      (update [add_tool_array 5] started_registry) = ?added"
    by (simp add: run_defs)
  have pre: "py_float (tool_data True (tools ?added) 1) = Inr 0"
    using py_float_tool_data [of 1 "tools ?added" 0 True] by (simp add: seed_zero)
  have loaded: "tool_changed True 2 ?added = Inr ?loaded"
    using pre
    by (simp add: tool_changed_def start_tool_timer_def Let_def py_int_def seed_zero
        example_row_eq)
  have run: "(tool_timer ^^ 3000) ?loaded =
      ?loaded\<lparr>timer_tenths := (timer_tenths ?loaded + int 3000) mod 10,
          timer_time := timer_time ?loaded + (timer_tenths ?loaded + int 3000) div 10\<rparr>"
    by (rule tool_timer_funpow) simp_all
  have written: "real_affinity (VStr (format_f 3 (round_double 5))) = VFloat 5"
    by (simp add: real_affinity_format_f quotient_300 seed_five)
  have worn: "stop_tool_timer ((tool_timer ^^ 3000) ?loaded) = ?worn"
    unfolding run using written
    by (simp add: stop_tool_timer_def Let_def tool_setData_def example_row_eq)
  have deleted: "update [add_tool_array 5, add_tool_array 2]
      (update [add_tool_array 5, add_tool_array 2, add_tool_array 9] ?worn) =
     \<lparr>offsets = [example_row 1 0 5, example_row 2 0 2],
      tools = [\<lparr>t_idn = 2, TOOL = 2, TIME = VFloat 5\<rparr>, \<lparr>t_idn = 1, TOOL = 5, TIME = VFloat 0\<rparr>],
      seq = 3, tool_list = [5, 2], offset_metric = True, tool_metric = True, tool_sort = True,
      current_row = Some 1, running = False, timer_tool = 2, timer_time = 300,
      timer_tenths = 0, next_available = 0\<rparr>"
    by (simp add: run_defs)
  show ?thesis
    unfolding swapped_registry_def added loaded sum.sel worn by (rule deleted)
qed

text \<open>Claim C4 fails in ordinary use. Tool 5 is added, then tool 2; tool 2 is loaded while
  a program runs, cuts for five minutes and has 5.000 stored; tool 9 is added and deleted
  again, which sorts the tools model: the offsets model lists 5, 2, the tools model 2, 5.
  Now \<open>start_tool_timer\<close> finds tool 2 at row 1 of the offsets model and seeds the clock
  from row 1 of the tools model, the row of tool 5: 0 seconds, not 300. After 120
  heartbeats \<open>stop_tool_timer\<close> writes 0.200 into the row of tool 5; the TIME cell of
  tool 2 still holds 5.\<close>

theorem timer_round_trip_other_row:
  "timer_tool swapped_registry = 2 \<and>
   get_index 2 (offsets swapped_registry) = Some 1 \<and>
   map TOOL (tools swapped_registry) = [2, 5] \<and>
   map TIME (tools swapped_registry) = [VFloat 5, VFloat 0] \<and>
   start_tool_timer swapped_registry = Inr (swapped_registry\<lparr>running := True, timer_time := 0\<rparr>) \<and>
   timer_time ((tool_timer ^^ 120) (swapped_registry\<lparr>running := True, timer_time := 0\<rparr>)) = 12 \<and>
   tools (stop_tool_timer ((tool_timer ^^ 120) (swapped_registry\<lparr>running := True, timer_time := 0\<rparr>))) =
     [\<lparr>t_idn = 2, TOOL = 2, TIME = VFloat 5\<rparr>,
      \<lparr>t_idn = 1, TOOL = 5, TIME = VFloat (3602879701896397 / 18014398509481984)\<rparr>] \<and>
   format_f 3 (3602879701896397 / 18014398509481984) = ''0.200''"
proof -
  let ?s1 = "swapped_registry\<lparr>running := True, timer_time := 0\<rparr>"
  have rows: "timer_tool swapped_registry = 2"
    "get_index 2 (offsets swapped_registry) = Some 1"
    "map TOOL (tools swapped_registry) = [2, 5]"
    "map TIME (tools swapped_registry) = [VFloat 5, VFloat 0]"
    by (simp_all add: swapped_registry_eq example_row_eq)
  have pre: "py_float (tool_data (tool_metric swapped_registry) (tools swapped_registry) 1) = Inr 0"
    using py_float_tool_data [of 1 "tools swapped_registry" 0 "tool_metric swapped_registry"]
    by (simp add: swapped_registry_eq seed_zero)
  have start: "start_tool_timer swapped_registry = Inr ?s1"
    using rows(1,2) pre
    by (simp add: start_tool_timer_def Let_def py_int_def seed_zero)
  have run: "(tool_timer ^^ 120) ?s1 =
      ?s1\<lparr>timer_tenths := (timer_tenths ?s1 + int 120) mod 10,
          timer_time := timer_time ?s1 + (timer_tenths ?s1 + int 120) div 10\<rparr>"
    by (rule tool_timer_funpow) (simp_all add: swapped_registry_eq)
  have time: "timer_time ((tool_timer ^^ 120) ?s1) = 12"
    unfolding run by (simp add: swapped_registry_eq)
  have written: "real_affinity (VStr (format_f 3 (round_double (1 / 5)))) =
      VFloat (3602879701896397 / 18014398509481984)"
    unfolding quotient_12 by (simp add: real_affinity_format_f stored_12)
  have stop: "tools (stop_tool_timer ((tool_timer ^^ 120) ?s1)) =
     [\<lparr>t_idn = 2, TOOL = 2, TIME = VFloat 5\<rparr>,
      \<lparr>t_idn = 1, TOOL = 5, TIME = VFloat (3602879701896397 / 18014398509481984)\<rparr>]"
    unfolding run using written
    by (simp add: stop_tool_timer_def Let_def tool_setData_def swapped_registry_eq example_row_eq)
  show ?thesis using rows start time stop shown_12 by simp
qed

text \<open>Claim C10. With a nonzero active tool that has no offsets row,
  \<open>start_tool_timer\<close> sets \<open>running\<close> and returns before the clock is seeded: the
  seconds counter keeps its old value, and \<open>n\<close> heartbeats add their whole seconds to it.\<close>

theorem start_tool_timer_unknown_tool:
  assumes "timer_tool s \<noteq> 0" and "get_index (timer_tool s) (offsets s) = None"
  shows "start_tool_timer s = Inr (s\<lparr>running := True\<rparr>) \<and>
     timer_time (s\<lparr>running := True\<rparr>) = timer_time s \<and>
     (0 \<le> timer_tenths s \<and> timer_tenths s < 10 \<longrightarrow>
        timer_time ((tool_timer ^^ n) (s\<lparr>running := True\<rparr>)) =
          timer_time s + (timer_tenths s + int n) div 10)"
proof -
  have start: "start_tool_timer s = Inr (s\<lparr>running := True\<rparr>)"
    using assms by (simp add: start_tool_timer_def Let_def)
  have ticks: "timer_time ((tool_timer ^^ n) (s\<lparr>running := True\<rparr>)) =
          timer_time s + (timer_tenths s + int n) div 10"
    if "0 \<le> timer_tenths s \<and> timer_tenths s < 10"
    using tool_timer_funpow [of "s\<lparr>running := True\<rparr>" n] that by simp
  show ?thesis using start ticks by simp
qed

theorem start_tool_timer_unknown_tool_witness:
  "timer_tool ((one_tool_registry 1 0 1)\<lparr>timer_tool := 3, timer_time := 300\<rparr>) \<noteq> 0 \<and>
   get_index 3 (offsets (one_tool_registry 1 0 1)) = None \<and>
   start_tool_timer ((one_tool_registry 1 0 1)\<lparr>timer_tool := 3, timer_time := 300\<rparr>) =
     Inr ((one_tool_registry 1 0 1)\<lparr>timer_tool := 3, timer_time := 300, running := True\<rparr>) \<and>
   timer_time ((tool_timer ^^ 20)
     ((one_tool_registry 1 0 1)\<lparr>timer_tool := 3, timer_time := 300, running := True\<rparr>)) = 302"
  using start_tool_timer_unknown_tool
    [of "(one_tool_registry 1 0 1)\<lparr>timer_tool := 3, timer_time := 300\<rparr>" 20]
  by (simp add: one_tool_registry_def init_registry_def example_row_eq)

text \<open>Claim C5 fails for the tool change: \<open>tool_changed\<close> with tool 0 on a running
  timer only clears \<open>current_row\<close>; the timer stays running.\<close>

theorem tool_zero_keeps_running_counterexample:
  "running ((one_tool_registry 1 0 1)\<lparr>timer_tool := 1, running := True, timer_time := 300\<rparr>) \<and>
   tool_changed True 0 ((one_tool_registry 1 0 1)\<lparr>timer_tool := 1, running := True, timer_time := 300\<rparr>) =
     Inr ((one_tool_registry 1 0 1)\<lparr>timer_tool := 1, running := True, timer_time := 300,
            current_row := None\<rparr>) \<and>
   running ((one_tool_registry 1 0 1)\<lparr>timer_tool := 1, running := True, timer_time := 300,
            current_row := None\<rparr>)"
  by (simp add: tool_changed_def Let_def)

text \<open>Claim C5, amended. While the timer runs, the end of run mode in automatic mode
  (\<open>interp_state\<close> with \<open>False\<close>) stops it; and when the tools model holds the active
  tool at the row index of its offsets row, the elapsed minutes, rounded to 3 decimals, are
  stored in the TIME cell of that tool. Outside automatic mode the event changes nothing,
  and a change to tool 0 leaves the timer as it is.\<close>

theorem running_to_idle:
  assumes "running s"
  shows "interp_state True False s = Inr (stop_tool_timer s) \<and>
     \<not> running (stop_tool_timer s) \<and>
     (\<forall>row. get_index (timer_tool s) (offsets s) = Some row \<and> row < length (tools s) \<and>
        TOOL (tools s ! row) = timer_tool s \<longrightarrow>
        TOOL (tools (stop_tool_timer s) ! row) = timer_tool s \<and>
        TIME (tools (stop_tool_timer s) ! row) =
          VFloat (round_double (decimal_round 3 (round_double (real_of_int (timer_time s) / 60))))) \<and>
     interp_state False False s = Inr s \<and>
     tool_changed auto_running 0 s = Inr (s\<lparr>current_row := None\<rparr>)"
  using assms
  by (simp add: interp_state_def stop_tool_timer_def tool_changed_def tool_setData_def Let_def
      real_affinity_format_f split: option.split)

theorem running_to_idle_witness:
  "running (two_tool_registry\<lparr>timer_tool := 2, running := True, timer_time := 312\<rparr>) \<and>
   get_index 2 (offsets two_tool_registry) = Some 1 \<and>
   1 < length (tools two_tool_registry) \<and>
   TOOL (tools two_tool_registry ! 1) = 2 \<and>
   \<not> running (stop_tool_timer
      (two_tool_registry\<lparr>timer_tool := 2, running := True, timer_time := 312\<rparr>)) \<and>
   TOOL (tools (stop_tool_timer
      (two_tool_registry\<lparr>timer_tool := 2, running := True, timer_time := 312\<rparr>)) ! 1) = 2 \<and>
   TIME (tools (stop_tool_timer
      (two_tool_registry\<lparr>timer_tool := 2, running := True, timer_time := 312\<rparr>)) ! 1) =
     VFloat (5854679515581645 / 1125899906842624) \<and>
   TIME (tools (stop_tool_timer
      (two_tool_registry\<lparr>timer_tool := 2, running := True, timer_time := 312\<rparr>)) ! 0) = VFloat 0"
proof -
  have rows: "get_index 2 (offsets two_tool_registry) = Some 1"
    "TOOL (tools two_tool_registry ! 1) = 2" "1 < length (tools two_tool_registry)"
    by (simp_all add: two_tool_registry_def init_registry_def example_row_eq)
  have other: "TIME (tools (stop_tool_timer
      (two_tool_registry\<lparr>timer_tool := 2, running := True, timer_time := 312\<rparr>)) ! 0) = VFloat 0"
    by (simp add: stop_tool_timer_def Let_def tool_setData_def two_tool_registry_def
        init_registry_def example_row_eq)
  show ?thesis
    using rows other
      running_to_idle [of "two_tool_registry\<lparr>timer_tool := 2, running := True, timer_time := 312\<rparr>"]
    by (simp add: quotient_312_lowest stored_312)
qed

end
